theory Spec2Isabelle
  imports Complex_Main
begin

section \<open>The cop-and-robber game of \<open>game.cpp\<close>\<close>

text \<open>
  A shallow embedding of \<open>src/game.cpp\<close>. Every class of the source is a record, every
  member function a HOL function that takes the object and returns the updated object.
  Rendering (\<open>draw\<close>, window set-up) does not touch the game state and is left out.

  Numbers: in the game itself the C++ \<open>float\<close> is read as a real number, so the theorems
  about frames, collisions and positions idealise the rounding of single-precision
  arithmetic; every float literal of the source (4.5, 3.375, 3.0, 0.75, ...) is exactly
  representable. Where a property is about the arithmetic itself (\<open>Normalize\<close>),
  \<open>VectorUtils\<close> is modelled a second time over single-precision numbers, below. The C++
  \<open>int\<close> is read as an unbounded integer; in every state the game can reach the level is
  at most 4 and the score at most 5, far from the range where \<open>int\<close> would overflow.
\<close>

subsection \<open>Single-precision numbers (the C++ float)\<close>

text \<open>
  A \<open>float\<close> is an IEEE 754 binary32 number: a real number that has a 24-bit significand
  and an exponent between -126 and 127, plus or minus infinity, or not-a-number. The two
  zeros are not told apart and there is one NaN.
\<close>

datatype float = Finite real | Infinity bool | NaN

text \<open>Rounding to the nearest integer, a tie to the even one.\<close>

definition nearest_even :: "real \<Rightarrow> int" where
  "nearest_even r =
     (let n = \<lfloor>r\<rfloor>
      in if r - of_int n < 1 / 2 then n
         else if 1 / 2 < r - of_int n then n + 1
         else if even n then n else n + 1)"

text \<open>The distance between neighbouring binary32 numbers around \<open>r\<close>: 2 to the power
  \<open>e - 23\<close> where \<open>2 ^ e \<le> \<bar>r\<bar> < 2 ^ (e + 1)\<close>, and \<open>2 ^ (- 149)\<close> for the subnormal
  numbers below \<open>2 ^ (- 126)\<close>.\<close>

definition quantum :: "real \<Rightarrow> real" where
  "quantum r = 2 powr of_int (max \<lfloor>log 2 \<bar>r\<bar>\<rfloor> (- 126) - 23)"

definition FLT_MAX :: real where
  "FLT_MAX = (2 ^ 24 - 1) * 2 ^ 104"

text \<open>The result of every operation is the exact result rounded to the nearest binary32
  number, a tie to the one with an even significand; a rounded value beyond \<open>FLT_MAX\<close>
  becomes infinity.\<close>

definition round_float :: "real \<Rightarrow> float" where
  "round_float r =
     (if r = 0 then Finite 0
      else let v = of_int (nearest_even (r / quantum r)) * quantum r
           in if FLT_MAX < \<bar>v\<bar> then Infinity (0 < r) else Finite v)"

text \<open>The operators \<open>*\<close>, \<open>+\<close>, \<open>/\<close> and \<open>!=\<close> on \<open>float\<close>, and \<open>sqrtf\<close> (correctly rounded).
  Each operation rounds on its own. \<open>Infinity True\<close> is plus infinity.\<close>

fun float_times :: "float \<Rightarrow> float \<Rightarrow> float" where
  "float_times (Finite a) (Finite b) = round_float (a * b)"
| "float_times (Finite a) (Infinity t) = (if a = 0 then NaN else Infinity ((0 < a) = t))"
| "float_times (Infinity s) (Finite b) = (if b = 0 then NaN else Infinity (s = (0 < b)))"
| "float_times (Infinity s) (Infinity t) = Infinity (s = t)"
| "float_times NaN b = NaN"
| "float_times a NaN = NaN"

fun float_plus :: "float \<Rightarrow> float \<Rightarrow> float" where
  "float_plus (Finite a) (Finite b) = round_float (a + b)"
| "float_plus (Finite a) (Infinity t) = Infinity t"
| "float_plus (Infinity s) (Finite b) = Infinity s"
| "float_plus (Infinity s) (Infinity t) = (if s = t then Infinity s else NaN)"
| "float_plus NaN b = NaN"
| "float_plus a NaN = NaN"

fun float_divide :: "float \<Rightarrow> float \<Rightarrow> float" where
  "float_divide (Finite a) (Finite b) =
     (if b = 0 then (if a = 0 then NaN else Infinity (0 < a)) else round_float (a / b))"
| "float_divide (Finite a) (Infinity t) = Finite 0"
| "float_divide (Infinity s) (Finite b) = Infinity (s = (0 \<le> b))"
| "float_divide (Infinity s) (Infinity t) = NaN"
| "float_divide NaN b = NaN"
| "float_divide a NaN = NaN"

fun sqrtf :: "float \<Rightarrow> float" where
  "sqrtf (Finite a) = (if a < 0 then NaN else round_float (sqrt a))"
| "sqrtf (Infinity s) = (if s then Infinity True else NaN)"
| "sqrtf NaN = NaN"

fun float_neq :: "float \<Rightarrow> float \<Rightarrow> bool" where
  "float_neq (Finite a) (Finite b) \<longleftrightarrow> a \<noteq> b"
| "float_neq (Infinity s) (Infinity t) \<longleftrightarrow> s \<noteq> t"
| "float_neq a b \<longleftrightarrow> True"

subsection \<open>Library types (raylib.h)\<close>

record Vector2 =
  x :: real
  y :: real

text \<open>The same struct with its components as single-precision numbers.\<close>

record Vector2_float =
  x :: float
  y :: float

record Rectangle =
  x :: real
  y :: real
  width :: real
  height :: real

datatype Color = GRAY | BROWN | BLUE | RED | PINK | GOLD | GREEN

datatype KeyboardKey = KEY_W | KEY_S | KEY_A | KEY_D | KEY_R

text \<open>
  The input of one frame: which keys are held (\<open>IsKeyDown\<close>) and which were pressed in
  this frame (\<open>IsKeyPressed\<close>).
\<close>

record Input =
  IsKeyDown :: "KeyboardKey \<Rightarrow> bool"
  IsKeyPressed :: "KeyboardKey \<Rightarrow> bool"

subsection \<open>VectorUtils (game.cpp 8-34)\<close>

definition Subtract :: "Vector2 \<Rightarrow> Vector2 \<Rightarrow> Vector2" where
  "Subtract v1 v2 = \<lparr>Vector2.x = Vector2.x v1 - Vector2.x v2, Vector2.y = Vector2.y v1 - Vector2.y v2\<rparr>"

definition Length :: "Vector2 \<Rightarrow> real" where
  "Length v = sqrt (Vector2.x v * Vector2.x v + Vector2.y v * Vector2.y v)"

definition Scale :: "Vector2 \<Rightarrow> real \<Rightarrow> Vector2" where
  "Scale v scale = \<lparr>Vector2.x = Vector2.x v * scale, Vector2.y = Vector2.y v * scale\<rparr>"

definition Add :: "Vector2 \<Rightarrow> Vector2 \<Rightarrow> Vector2" where
  "Add v1 v2 = \<lparr>Vector2.x = Vector2.x v1 + Vector2.x v2, Vector2.y = Vector2.y v1 + Vector2.y v2\<rparr>"

definition Normalize :: "Vector2 \<Rightarrow> Vector2" where
  "Normalize v =
     (let length = Length v
      in if length \<noteq> 0 then Scale v (1 / length)
         else \<lparr>Vector2.x = 0, Vector2.y = 0\<rparr>)"

text \<open>\<open>Length\<close>, \<open>Scale\<close> and \<open>Normalize\<close> (lines 14-20 and 26-33) once more, in single-precision
  arithmetic.\<close>

definition Length_float :: "Vector2_float \<Rightarrow> float" where
  "Length_float v =
     sqrtf (float_plus (float_times (Vector2_float.x v) (Vector2_float.x v))
                       (float_times (Vector2_float.y v) (Vector2_float.y v)))"

definition Scale_float :: "Vector2_float \<Rightarrow> float \<Rightarrow> Vector2_float" where
  "Scale_float v scale =
     \<lparr>Vector2_float.x = float_times (Vector2_float.x v) scale,
      Vector2_float.y = float_times (Vector2_float.y v) scale\<rparr>"

definition Normalize_float :: "Vector2_float \<Rightarrow> Vector2_float" where
  "Normalize_float v =
     (let length = Length_float v
      in if float_neq length (Finite 0) then Scale_float v (float_divide (Finite 1) length)
         else \<lparr>Vector2_float.x = Finite 0, Vector2_float.y = Finite 0\<rparr>)"

subsection \<open>Library functions (raylib, libm, libc)\<close>

text \<open>
  Modelled from the spec: the three collision predicates are raylib functions, whose code
  is not under \<open>src/\<close>. Section 4.2 of the specification gives the circle tests:
  a circle overlaps a rectangle iff the closest point of the rectangle to the circle's
  centre is within the radius, and two circles overlap iff the distance between their
  centres is less than the sum of the radii. A point is inside a rectangle iff it lies
  between the rectangle's edges on both axes.
\<close>

definition CheckCollisionPointRec :: "Vector2 \<Rightarrow> Rectangle \<Rightarrow> bool" where
  "CheckCollisionPointRec point rec \<longleftrightarrow>
     Rectangle.x rec \<le> Vector2.x point \<and> Vector2.x point \<le> Rectangle.x rec + width rec \<and>
     Rectangle.y rec \<le> Vector2.y point \<and> Vector2.y point \<le> Rectangle.y rec + height rec"

definition closestPoint :: "Vector2 \<Rightarrow> Rectangle \<Rightarrow> Vector2" where
  "closestPoint center rec =
     \<lparr>Vector2.x = max (Rectangle.x rec) (min (Vector2.x center) (Rectangle.x rec + width rec)),
      Vector2.y = max (Rectangle.y rec) (min (Vector2.y center) (Rectangle.y rec + height rec))\<rparr>"

definition CheckCollisionCircleRec :: "Vector2 \<Rightarrow> real \<Rightarrow> Rectangle \<Rightarrow> bool" where
  "CheckCollisionCircleRec center r rec \<longleftrightarrow>
     Length (Subtract center (closestPoint center rec)) \<le> r"

definition CheckCollisionCircles :: "Vector2 \<Rightarrow> real \<Rightarrow> Vector2 \<Rightarrow> real \<Rightarrow> bool" where
  "CheckCollisionCircles center1 radius1 center2 radius2 \<longleftrightarrow>
     Length (Subtract center2 center1) < radius1 + radius2"

text \<open>
  Modelled from the spec: \<open>atan2f\<close> is the C library's two-argument arctangent (the
  angle of the point \<open>(a, b)\<close>, in radians, in \<open>(-\<pi>, \<pi>]\<close>, and 0 at the origin); the
  specification's step 5 of section 4.3 calls it \<open>atan2(desired.y, desired.x)\<close>.
\<close>

definition atan2f :: "real \<Rightarrow> real \<Rightarrow> real" where
  "atan2f b a =
     (if 0 < a then arctan (b / a)
      else if a < 0 \<and> 0 \<le> b then arctan (b / a) + pi
      else if a < 0 then arctan (b / a) - pi
      else if 0 < b then pi / 2
      else if b < 0 then - (pi / 2)
      else 0)"

text \<open>
  \<open>rand()\<close>: the generator is the sequence of numbers it is still going to return. A call
  returns the head and leaves the tail. \<open>srand(time(0))\<close> picks the sequence, so a game
  may start from any sequence.
\<close>

type_synonym rand_state = "nat \<Rightarrow> nat"

definition rand :: "rand_state \<Rightarrow> int \<times> rand_state" where
  "rand s = (int (s 0), \<lambda>n. s (Suc n))"

subsection \<open>Entities (game.cpp 43-185)\<close>

record Wall =
  rect :: Rectangle

record Door =
  rect :: Rectangle
  isOpen :: bool

record Character =
  position :: Vector2
  radius :: int
  color :: Color
  speed :: real

type_synonym Robber = Character

record Cop = Character +
  rotation :: real

record Coin =
  position :: Vector2
  collected :: bool

record SlowingZone =
  rect :: Rectangle
  slowEffect :: real

definition new_Wall :: "Rectangle \<Rightarrow> Wall" where
  "new_Wall r = \<lparr>Wall.rect = r\<rparr>"

definition new_Door :: "Rectangle \<Rightarrow> Door" where
  "new_Door r = \<lparr>Door.rect = r, isOpen = False\<rparr>"

definition new_Robber :: "Vector2 \<Rightarrow> int \<Rightarrow> Color \<Rightarrow> real \<Rightarrow> Robber" where
  "new_Robber pos rad col spd =
     \<lparr>Character.position = pos, radius = rad, color = col, speed = spd\<rparr>"

definition new_Cop :: "Vector2 \<Rightarrow> int \<Rightarrow> Color \<Rightarrow> real \<Rightarrow> Cop" where
  "new_Cop pos rad col spd =
     \<lparr>Character.position = pos, radius = rad, color = col, speed = spd, rotation = 0\<rparr>"

definition new_Coin :: "Vector2 \<Rightarrow> Coin" where
  "new_Coin pos = \<lparr>Coin.position = pos, collected = False\<rparr>"

definition new_SlowingZone :: "Rectangle \<Rightarrow> real \<Rightarrow> SlowingZone" where
  "new_SlowingZone r effect = \<lparr>SlowingZone.rect = r, slowEffect = effect\<rparr>"

definition isInside :: "SlowingZone \<Rightarrow> Vector2 \<Rightarrow> bool" where
  "isInside z pos = CheckCollisionPointRec pos (SlowingZone.rect z)"

subsection \<open>Constants of the Game class (game.cpp 190-196)\<close>

definition screenWidth :: int where "screenWidth = 800"
definition screenHeight :: int where "screenHeight = 600"
definition playerRadius :: int where "playerRadius = 20"
definition copRadius :: int where "copRadius = 20"
definition wallThickness :: int where "wallThickness = 20"
definition maxCoins :: int where "maxCoins = 5"

text \<open>
  raylib's \<open>GetScreenWidth\<close> and \<open>GetScreenHeight\<close> return the size of the window, which the
  constructor opens with \<open>InitWindow(screenWidth, screenHeight, ...)\<close>.
\<close>

definition GetScreenWidth :: int where "GetScreenWidth = screenWidth"
definition GetScreenHeight :: int where "GetScreenHeight = screenHeight"

subsection \<open>Robber::move (game.cpp 95-100)\<close>

text \<open>Four independent tests, in the order W, S, A, D; each reads the position the
  earlier ones left.\<close>

definition Robber_move :: "Input \<Rightarrow> Robber \<Rightarrow> Robber" where
  "Robber_move inp r =
     (let p0 = Character.position r;
          p1 = (if IsKeyDown inp KEY_W \<and> Vector2.y p0 - real_of_int (radius r) > 0
                then p0\<lparr>Vector2.y := Vector2.y p0 - speed r\<rparr> else p0);
          p2 = (if IsKeyDown inp KEY_S \<and> Vector2.y p1 + real_of_int (radius r) < real_of_int GetScreenHeight
                then p1\<lparr>Vector2.y := Vector2.y p1 + speed r\<rparr> else p1);
          p3 = (if IsKeyDown inp KEY_A \<and> Vector2.x p2 - real_of_int (radius r) > 0
                then p2\<lparr>Vector2.x := Vector2.x p2 - speed r\<rparr> else p2);
          p4 = (if IsKeyDown inp KEY_D \<and> Vector2.x p3 + real_of_int (radius r) < real_of_int GetScreenWidth
                then p3\<lparr>Vector2.x := Vector2.x p3 + speed r\<rparr> else p3)
      in r\<lparr>Character.position := p4\<rparr>)"

subsection \<open>Cop::move (game.cpp 114-147)\<close>

text \<open>
  The loop over the walls (lines 120-135): \<open>nextPosition\<close> is the candidate; at the first
  wall the candidate overlaps, the two perpendicular steps are tried against that wall
  and the loop breaks.
\<close>

fun Cop_move_walls :: "Cop \<Rightarrow> Vector2 \<Rightarrow> Vector2 \<Rightarrow> Wall list \<Rightarrow> Vector2" where
  "Cop_move_walls c direction nextPosition [] = nextPosition"
| "Cop_move_walls c direction nextPosition (wall # walls) =
     (if CheckCollisionCircleRec nextPosition (real_of_int (radius c)) (Wall.rect wall) then
        (let perpendicularDirection = \<lparr>Vector2.x = - Vector2.y direction, Vector2.y = Vector2.x direction\<rparr>;
             nextPosition1 = Add (Character.position c) (Scale perpendicularDirection (speed c));
             nextPosition2 = Add (Character.position c) (Scale perpendicularDirection (- speed c))
         in if \<not> CheckCollisionCircleRec nextPosition1 (real_of_int (radius c)) (Wall.rect wall)
            then nextPosition1
            else if \<not> CheckCollisionCircleRec nextPosition2 (real_of_int (radius c)) (Wall.rect wall)
            then nextPosition2
            else Character.position c)
      else Cop_move_walls c direction nextPosition walls)"

text \<open>The four boundary tests of lines 138-141, in order, each on the result of the
  one before.\<close>

definition Cop_move_clamp :: "int \<Rightarrow> Vector2 \<Rightarrow> Vector2" where
  "Cop_move_clamp rad p0 =
     (let p1 = (if Vector2.x p0 - real_of_int rad < 0 then p0\<lparr>Vector2.x := real_of_int rad\<rparr> else p0);
          p2 = (if Vector2.x p1 + real_of_int rad > real_of_int GetScreenWidth
                then p1\<lparr>Vector2.x := real_of_int (GetScreenWidth - rad)\<rparr> else p1);
          p3 = (if Vector2.y p2 - real_of_int rad < 0 then p2\<lparr>Vector2.y := real_of_int rad\<rparr> else p2);
          p4 = (if Vector2.y p3 + real_of_int rad > real_of_int GetScreenHeight
                then p3\<lparr>Vector2.y := real_of_int (GetScreenHeight - rad)\<rparr> else p3)
      in p4)"

definition Cop_move :: "Cop \<Rightarrow> Character \<Rightarrow> Wall list \<Rightarrow> Cop" where
  "Cop_move c target walls =
     (let direction = Normalize (Subtract (Character.position target) (Character.position c));
          nextPosition = Add (Character.position c) (Scale direction (speed c));
          nextPosition = Cop_move_walls c direction nextPosition walls;
          nextPosition = Cop_move_clamp (radius c) nextPosition
      in c\<lparr>Character.position := nextPosition,
            rotation := atan2f (Vector2.y direction) (Vector2.x direction) * (180 / pi)\<rparr>)"

subsection \<open>The Game class (game.cpp 188-406)\<close>

record Game =
  robber :: Robber
  cop :: Cop
  cop2 :: "Cop option"
  door :: "Door option"
  coins :: "Coin list"
  walls :: "Wall list"
  slowingZone :: "SlowingZone option"
  score :: int
  gameOver :: bool
  robberEscaped :: bool
  level :: int
  rng :: rand_state

text \<open>
  generateCoins (lines 329-347). The inner loop of lines 338-343 tests one sampled
  position against the walls; the \<open>do ... while\<close> of lines 334-344 samples until a position
  is valid, and may run forever, in which case the model returns \<open>None\<close>.
\<close>

fun generateCoins_valid :: "Vector2 \<Rightarrow> Wall list \<Rightarrow> bool" where
  "generateCoins_valid coinPosition [] = True"
| "generateCoins_valid coinPosition (wall # ws) =
     (if CheckCollisionPointRec coinPosition (Wall.rect wall) then False
      else generateCoins_valid coinPosition ws)"

definition coinPosition_of :: "rand_state \<Rightarrow> Vector2" where
  "coinPosition_of s =
     \<lparr>Vector2.x = real_of_int (fst (rand s) mod (screenWidth - 2 * 10) + 10),
      Vector2.y = real_of_int (fst (rand (snd (rand s))) mod (screenHeight - 2 * 10) + 10)\<rparr>"

partial_function (option) generateCoins_sample ::
  "Wall list \<Rightarrow> rand_state \<Rightarrow> (Vector2 \<times> rand_state) option" where
  "generateCoins_sample ws s =
     (if generateCoins_valid (coinPosition_of s) ws
      then Some (coinPosition_of s, snd (rand (snd (rand s))))
      else generateCoins_sample ws (snd (rand (snd (rand s)))))"

fun generateCoins_loop ::
  "nat \<Rightarrow> Wall list \<Rightarrow> Coin list \<Rightarrow> rand_state \<Rightarrow> (Coin list \<times> rand_state) option" where
  "generateCoins_loop 0 ws cs s = Some (cs, s)"
| "generateCoins_loop (Suc n) ws cs s =
     (case generateCoins_sample ws s of
        None \<Rightarrow> None
      | Some (coinPosition, s') \<Rightarrow> generateCoins_loop n ws (cs @ [new_Coin coinPosition]) s')"

definition generateCoins :: "Game \<Rightarrow> Game option" where
  "generateCoins g =
     (case generateCoins_loop (nat maxCoins) (walls g) [] (rng g) of
        None \<Rightarrow> None
      | Some (cs, s) \<Rightarrow> Some (g\<lparr>coins := cs, rng := s\<rparr>))"

definition generateWalls :: "Game \<Rightarrow> Game" where
  "generateWalls g =
     g\<lparr>walls :=
         [new_Wall \<lparr>Rectangle.x = 150, y = 150, width = 200, height = real_of_int wallThickness\<rparr>,
          new_Wall \<lparr>Rectangle.x = 450, y = 300, width = real_of_int wallThickness, height = 200\<rparr>,
          new_Wall \<lparr>Rectangle.x = 250, y = 450, width = 300, height = real_of_int wallThickness\<rparr>]\<rparr>"

text \<open>generateSlowingZone (lines 356-363); \<open>static_cast<int>\<close> of a non-negative float is
  its floor.\<close>

definition generateSlowingZone :: "Game \<Rightarrow> Game" where
  "generateSlowingZone g =
     (let zoneWidth = real_of_int screenWidth / 2;
          zoneHeight = real_of_int screenHeight / 2;
          r1 = rand (rng g);
          r2 = rand (snd r1)
      in g\<lparr>slowingZone := Some (new_SlowingZone
               \<lparr>Rectangle.x = real_of_int (fst r1 mod (screenWidth - \<lfloor>zoneWidth\<rfloor>)),
                y = real_of_int (fst r2 mod (screenHeight - \<lfloor>zoneHeight\<rfloor>)),
                width = zoneWidth, height = zoneHeight\<rparr> 0.75),
            rng := snd r2\<rparr>)"

definition generateDoor :: "Game \<Rightarrow> Game" where
  "generateDoor g =
     g\<lparr>door := Some ((new_Door
         \<lparr>Rectangle.x = real_of_int screenWidth / 2 - 40, y = real_of_int screenHeight - 80,
          width = 80, height = 40\<rparr>)\<lparr>isOpen := True\<rparr>)\<rparr>"

definition advanceLevel :: "Game \<Rightarrow> Game option" where
  "advanceLevel g =
     (case generateCoins (g\<lparr>level := level g + 1, score := 0\<rparr>) of
        None \<Rightarrow> None
      | Some g' \<Rightarrow>
          Some (if level g' = 2 then generateSlowingZone g'
                else if level g' = 3 then
                  generateDoor (g'\<lparr>cop2 := Some (new_Cop
                    \<lparr>Vector2.x = real_of_int screenWidth - 100, Vector2.y = real_of_int screenHeight - 100\<rparr>
                    copRadius PINK 3)\<rparr>)
                else g'\<lparr>gameOver := True\<rparr>))"

definition resetGame :: "Game \<Rightarrow> Game option" where
  "resetGame g =
     generateCoins (g\<lparr>score := 0, level := 1, gameOver := False, robberEscaped := False,
                      cop2 := None, slowingZone := None, door := None,
                      cop := new_Cop \<lparr>Vector2.x = 100, Vector2.y = 100\<rparr> copRadius RED 3\<rparr>)"

text \<open>The constructor (lines 210-220): the coins are generated before the walls.\<close>

definition new_Game :: "rand_state \<Rightarrow> Game option" where
  "new_Game s =
     (case generateCoins
        \<lparr>robber = new_Robber \<lparr>Vector2.x = real_of_int screenWidth / 2, Vector2.y = real_of_int screenHeight / 2\<rparr>
                    playerRadius BLUE 4.5,
         cop = new_Cop \<lparr>Vector2.x = 100, Vector2.y = 100\<rparr> copRadius RED 3,
         cop2 = None, door = None, coins = [], walls = [], slowingZone = None,
         score = 0, gameOver = False, robberEscaped = False, level = 1, rng = s\<rparr> of
        None \<Rightarrow> None
      | Some g \<Rightarrow> Some (generateWalls g))"

subsection \<open>Game::update (game.cpp 241-286)\<close>

text \<open>Lines 243-251: the robber moves, and goes back to where it was if it then
  overlaps a wall.\<close>

fun update_hitsWall :: "Robber \<Rightarrow> Wall list \<Rightarrow> bool" where
  "update_hitsWall r [] = False"
| "update_hitsWall r (wall # ws) =
     (if CheckCollisionCircleRec (Character.position r) (real_of_int (radius r)) (Wall.rect wall)
      then True else update_hitsWall r ws)"

definition update_robber :: "Input \<Rightarrow> Game \<Rightarrow> Game" where
  "update_robber inp g =
     (let oldPosition = Character.position (robber g);
          r = Robber_move inp (robber g)
      in if update_hitsWall r (walls g)
         then g\<lparr>robber := r\<lparr>Character.position := oldPosition\<rparr>\<rparr>
         else g\<lparr>robber := r\<rparr>)"

text \<open>Lines 253-257.\<close>

definition update_speed :: "Game \<Rightarrow> Game" where
  "update_speed g =
     (if (case slowingZone g of None \<Rightarrow> False
          | Some z \<Rightarrow> isInside z (Character.position (robber g)))
      then g\<lparr>robber := (robber g)\<lparr>speed := 3.375\<rparr>\<rparr>
      else g\<lparr>robber := (robber g)\<lparr>speed := 4.5\<rparr>\<rparr>)"

text \<open>Lines 259-260.\<close>

definition update_cops :: "Game \<Rightarrow> Game" where
  "update_cops g =
     (let g1 = g\<lparr>cop := Cop_move (cop g) (robber g) (walls g)\<rparr>
      in case cop2 g1 of
           None \<Rightarrow> g1
         | Some c2 \<Rightarrow> g1\<lparr>cop2 := Some (Cop_move c2 (robber g1) (walls g1))\<rparr>)"

text \<open>Lines 262-265.\<close>

definition update_caught :: "Game \<Rightarrow> Game" where
  "update_caught g =
     (if CheckCollisionCircles (Character.position (robber g)) (real_of_int (radius (robber g)))
           (Character.position (cop g)) (real_of_int (radius (cop g))) \<or>
         (case cop2 g of None \<Rightarrow> False
          | Some c2 \<Rightarrow> CheckCollisionCircles (Character.position (robber g)) (real_of_int (radius (robber g)))
                         (Character.position c2) (real_of_int (radius c2)))
      then g\<lparr>gameOver := True\<rparr> else g)"

text \<open>Lines 267-272: the coins in order, the score counted up as they are collected.\<close>

fun update_coins_loop :: "Robber \<Rightarrow> Coin list \<Rightarrow> int \<Rightarrow> Coin list \<times> int" where
  "update_coins_loop r [] sc = ([], sc)"
| "update_coins_loop r (coin # cs) sc =
     (if \<not> collected coin \<and>
         CheckCollisionCircles (Character.position r) (real_of_int (radius r)) (Coin.position coin) 10
      then (coin\<lparr>collected := True\<rparr> # fst (update_coins_loop r cs (sc + 1)),
            snd (update_coins_loop r cs (sc + 1)))
      else (coin # fst (update_coins_loop r cs sc), snd (update_coins_loop r cs sc)))"

definition update_coins :: "Game \<Rightarrow> Game" where
  "update_coins g =
     g\<lparr>coins := fst (update_coins_loop (robber g) (coins g) (score g)),
       score := snd (update_coins_loop (robber g) (coins g) (score g))\<rparr>"

text \<open>Lines 274-276.\<close>

definition update_level :: "Game \<Rightarrow> Game option" where
  "update_level g = (if score g \<ge> maxCoins then advanceLevel g else Some g)"

text \<open>Lines 278-280.\<close>

definition update_door :: "Game \<Rightarrow> Game" where
  "update_door g =
     (case door g of
        None \<Rightarrow> g
      | Some d \<Rightarrow>
          if isOpen d \<and>
             CheckCollisionCircleRec (Character.position (robber g)) (real_of_int (radius (robber g))) (Door.rect d)
          then g\<lparr>robberEscaped := True\<rparr> else g)"

text \<open>The whole of \<open>update\<close>: one frame, \<open>None\<close> when the frame never ends.\<close>

definition update :: "Input \<Rightarrow> Game \<Rightarrow> Game option" where
  "update inp g =
     (if \<not> gameOver g \<and> \<not> robberEscaped g then
        (case update_level (update_coins (update_caught (update_cops (update_speed (update_robber inp g))))) of
           None \<Rightarrow> None
         | Some g' \<Rightarrow> Some (update_door g'))
      else if IsKeyPressed inp KEY_R then resetGame g
      else Some g)"

text \<open>The states a session can be in between two frames: the constructor's, and those
  that \<open>update\<close> returns.\<close>

inductive reachable :: "Game \<Rightarrow> bool" where
  start: "new_Game s = Some g \<Longrightarrow> reachable g"
| frame: "reachable g \<Longrightarrow> update inp g = Some g' \<Longrightarrow> reachable g'"

section \<open>Vocabulary of the properties\<close>

subsection \<open>Random numbers still to come\<close>

text \<open>The generator after \<open>n\<close> more calls of \<open>rand\<close>.\<close>

definition rand_drop :: "nat \<Rightarrow> rand_state \<Rightarrow> rand_state" where
  "rand_drop n s = (\<lambda>i. s (i + n))"

text \<open>
  Rejection sampling of a coin ends only if the generator produces a position outside
  every wall. \<open>coins_possible ws s\<close> says that it keeps doing so: after any number of
  sampled pairs, a later pair is a valid position.
\<close>

definition coins_possible :: "Wall list \<Rightarrow> rand_state \<Rightarrow> bool" where
  "coins_possible ws s \<longleftrightarrow>
     (\<forall>n. \<exists>k. generateCoins_valid (coinPosition_of (rand_drop (2 * (n + k)) s)) ws)"

text \<open>A freshly generated set of coins: \<open>maxCoins\<close> of them, none collected, none inside
  a wall.\<close>

definition fresh_coins :: "Wall list \<Rightarrow> Coin list \<Rightarrow> bool" where
  "fresh_coins ws cs \<longleftrightarrow>
     int (length cs) = maxCoins \<and>
     (\<forall>c\<in>set cs. \<not> collected c \<and> (\<forall>w\<in>set ws. \<not> CheckCollisionPointRec (Coin.position c) (Wall.rect w)))"

subsection \<open>Names for the expressions of Cop::move\<close>

text \<open>The candidate position of line 117.\<close>

definition candidate :: "Cop \<Rightarrow> Character \<Rightarrow> Vector2" where
  "candidate c target =
     Add (Character.position c)
       (Scale (Normalize (Subtract (Character.position target) (Character.position c))) (speed c))"

text \<open>The sidesteps of lines 122-124: \<open>deflection c target (speed c)\<close> is
  \<open>nextPosition1\<close>, \<open>deflection c target (- speed c)\<close> is \<open>nextPosition2\<close>.\<close>

definition deflection :: "Cop \<Rightarrow> Character \<Rightarrow> real \<Rightarrow> Vector2" where
  "deflection c target sp =
     (let direction = Normalize (Subtract (Character.position target) (Character.position c))
      in Add (Character.position c)
           (Scale \<lparr>Vector2.x = - Vector2.y direction, Vector2.y = Vector2.x direction\<rparr> sp))"

definition overlaps :: "Cop \<Rightarrow> Vector2 \<Rightarrow> Wall \<Rightarrow> bool" where
  "overlaps c p wall = CheckCollisionCircleRec p (real_of_int (radius c)) (Wall.rect wall)"

text \<open>A circle of radius \<open>rad\<close> at \<open>p\<close> lies within the window.\<close>

definition inArena :: "int \<Rightarrow> Vector2 \<Rightarrow> bool" where
  "inArena rad p \<longleftrightarrow>
     real_of_int rad \<le> Vector2.x p \<and> Vector2.x p + real_of_int rad \<le> real_of_int GetScreenWidth \<and>
     real_of_int rad \<le> Vector2.y p \<and> Vector2.y p + real_of_int rad \<le> real_of_int GetScreenHeight"

subsection \<open>Names for the steps of a frame\<close>

text \<open>The robber as it stands when the coins are tested (after lines 243-257).\<close>

definition moved_robber :: "Input \<Rightarrow> Game \<Rightarrow> Robber" where
  "moved_robber inp g = robber (update_speed (update_robber inp g))"

text \<open>The test of line 268.\<close>

definition touching :: "Robber \<Rightarrow> Coin \<Rightarrow> bool" where
  "touching r coin \<longleftrightarrow>
     \<not> collected coin \<and>
     CheckCollisionCircles (Character.position r) (real_of_int (radius r)) (Coin.position coin) 10"

text \<open>The state of a frame just after the coin loop, before line 274.\<close>

definition collected_game :: "Input \<Rightarrow> Game \<Rightarrow> Game" where
  "collected_game inp g =
     update_coins (update_caught (update_cops (update_speed (update_robber inp g))))"

subsection \<open>Numbers of moderate size\<close>

text \<open>A component that is zero or of magnitude between \<open>2 ^ (- 60)\<close> and \<open>2 ^ 60\<close>: its
  square neither overflows nor underflows in single precision.\<close>

definition moderate :: "real \<Rightarrow> bool" where
  "moderate r \<longleftrightarrow> r = 0 \<or> (1 / 2 ^ 60 \<le> \<bar>r\<bar> \<and> \<bar>r\<bar> \<le> 2 ^ 60)"

subsection \<open>Example inputs\<close>

definition idle :: Input where
  "idle = \<lparr>IsKeyDown = (\<lambda>k. False), IsKeyPressed = (\<lambda>k. False)\<rparr>"

definition hold :: "KeyboardKey \<Rightarrow> Input" where
  "hold k = \<lparr>IsKeyDown = (\<lambda>j. j = k), IsKeyPressed = (\<lambda>j. False)\<rparr>"

definition press :: "KeyboardKey \<Rightarrow> Input" where
  "press k = \<lparr>IsKeyDown = (\<lambda>j. j = k), IsKeyPressed = (\<lambda>j. j = k)\<rparr>"

text \<open>The three walls of generateWalls.\<close>

definition the_walls :: "Wall list" where
  "the_walls =
     [new_Wall \<lparr>Rectangle.x = 150, y = 150, width = 200, height = 20\<rparr>,
      new_Wall \<lparr>Rectangle.x = 450, y = 300, width = 20, height = 200\<rparr>,
      new_Wall \<lparr>Rectangle.x = 250, y = 450, width = 300, height = 20\<rparr>]"

text \<open>A generator that returns 5755 at every call: every coin is sampled at
  (5755 mod 780 + 10, 5755 mod 580 + 10) = (305, 545), and the slowing zone at
  (5755 mod 400, 5755 mod 300) = (155, 55).\<close>

definition session_rand :: rand_state where
  "session_rand = (\<lambda>n. 5755)"

text \<open>The game the constructor builds from that generator.\<close>

definition start_game :: Game where
  "start_game =
     \<lparr>robber = new_Robber \<lparr>Vector2.x = 400, Vector2.y = 300\<rparr> playerRadius BLUE 4.5,
      cop = new_Cop \<lparr>Vector2.x = 100, Vector2.y = 100\<rparr> copRadius RED 3,
      cop2 = None, door = None,
      coins = replicate 5 (new_Coin \<lparr>Vector2.x = 305, Vector2.y = 545\<rparr>),
      walls = the_walls, slowingZone = None,
      score = 0, gameOver = False, robberEscaped = False, level = 1, rng = session_rand\<rparr>"

text \<open>A chaser next to the first wall, its target straight to the right.\<close>

definition witness_cop :: Cop where
  "witness_cop = new_Cop \<lparr>Vector2.x = 128, Vector2.y = 160\<rparr> copRadius RED 3"

definition witness_target :: Robber where
  "witness_target = new_Robber \<lparr>Vector2.x = 400, Vector2.y = 160\<rparr> playerRadius BLUE 4.5"

text \<open>A chaser that sticks out of the window on the left, inside a wall that blocks the
  step ahead and both sidesteps.\<close>

definition edge_cop :: Cop where
  "edge_cop = new_Cop \<lparr>Vector2.x = 10, Vector2.y = 300\<rparr> copRadius RED 3"

definition edge_target :: Robber where
  "edge_target = new_Robber \<lparr>Vector2.x = 50, Vector2.y = 300\<rparr> playerRadius BLUE 4.5"

definition edge_wall :: Wall where
  "edge_wall = new_Wall \<lparr>Rectangle.x = 0, y = 250, width = 100, height = 100\<rparr>"

text \<open>A caught game: the runner stands at (200, 200), the chaser has reached it.\<close>

definition caught_game :: Game where
  "caught_game =
     start_game\<lparr>robber := new_Robber \<lparr>Vector2.x = 200, Vector2.y = 200\<rparr> playerRadius BLUE 4.5,
                cop := new_Cop \<lparr>Vector2.x = 170, Vector2.y = 200\<rparr> copRadius RED 3,
                gameOver := True\<rparr>"

text \<open>A game on level 1 with four coins collected and the fifth within reach of the
  runner.\<close>

definition fifth_coin_game :: Game where
  "fifth_coin_game =
     start_game\<lparr>score := 4,
                coins := replicate 4 ((new_Coin \<lparr>Vector2.x = 305, Vector2.y = 545\<rparr>)\<lparr>collected := True\<rparr>)
                         @ [new_Coin \<lparr>Vector2.x = 410, Vector2.y = 300\<rparr>]\<rparr>"


text \<open>A runner one step to the left of the second wall.\<close>

definition beside_wall_game :: Game where
  "beside_wall_game =
     start_game\<lparr>robber := new_Robber \<lparr>Vector2.x = 426, Vector2.y = 300\<rparr> playerRadius BLUE 4.5\<rparr>"

subsection \<open>An example session\<close>

text \<open>The coins that generator produces: five at (305, 545).\<close>

definition five_coins :: "Coin list" where
  "five_coins = replicate 5 (new_Coin \<lparr>Vector2.x = 305, Vector2.y = 545\<rparr>)"

text \<open>The slowing zone that generator produces.\<close>

definition session_zone :: SlowingZone where
  "session_zone = new_SlowingZone \<lparr>Rectangle.x = 155, y = 55, width = 400, height = 300\<rparr> 0.75"

text \<open>The door of generateDoor.\<close>

definition open_door :: Door where
  "open_door = (new_Door \<lparr>Rectangle.x = 360, y = 520, width = 80, height = 40\<rparr>)\<lparr>isOpen := True\<rparr>"

text \<open>The runner with its initial radius, colour and speed, at a given position.\<close>

definition runner_at :: "Vector2 \<Rightarrow> Robber" where
  "runner_at p = new_Robber p playerRadius BLUE 4.5"

text \<open>The session while the runner walks towards the coins: level 1, nothing collected,
  the runner at \<open>p\<close> with full speed. The chaser may be anywhere and may have caught the
  runner.\<close>

definition travelling :: "Vector2 \<Rightarrow> Game \<Rightarrow> bool" where
  "travelling p g \<longleftrightarrow>
     reachable g \<and> robber g = runner_at p \<and> walls g = the_walls \<and> rng g = session_rand \<and>
     coins g = five_coins \<and> level g = 1 \<and> score g = 0 \<and> slowingZone g = None \<and>
     door g = None \<and> cop2 g = None \<and> \<not> robberEscaped g"

text \<open>The session while the runner walks below the third wall, past the coins: any level,
  the coins fresh (the runner touches all five of them or none), the runner at \<open>p\<close> with
  full speed and not escaped.\<close>

definition wandering :: "Vector2 \<Rightarrow> Game \<Rightarrow> bool" where
  "wandering p g \<longleftrightarrow>
     reachable g \<and> robber g = runner_at p \<and> walls g = the_walls \<and> rng g = session_rand \<and>
     coins g = five_coins \<and> score g = 0 \<and>
     (slowingZone g = None \<or> slowingZone g = Some session_zone) \<and>
     (door g = None \<or> door g = Some open_door) \<and> \<not> robberEscaped g"

text \<open>The session one frame after a reset with the runner at (332.5, 538.5), within reach
  of the coins: level 2, the chaser one step away from its corner.\<close>

definition level2_game :: Game where
  "level2_game =
     \<lparr>robber = runner_at \<lparr>Vector2.x = 332.5, Vector2.y = 538.5\<rparr>,
      cop = Cop_move (new_Cop \<lparr>Vector2.x = 100, Vector2.y = 100\<rparr> copRadius RED 3)
              (runner_at \<lparr>Vector2.x = 332.5, Vector2.y = 538.5\<rparr>) the_walls,
      cop2 = None, door = None, coins = five_coins, walls = the_walls,
      slowingZone = Some session_zone, score = 0, gameOver = False, robberEscaped = False,
      level = 2, rng = session_rand\<rparr>"

text \<open>The session one frame later: level 3, the second chaser and the open door
  present.\<close>

definition level3_game :: Game where
  "level3_game =
     level2_game\<lparr>cop := Cop_move (cop level2_game) (runner_at \<lparr>Vector2.x = 332.5, Vector2.y = 538.5\<rparr>) the_walls,
                 cop2 := Some (new_Cop \<lparr>Vector2.x = 700, Vector2.y = 500\<rparr> copRadius PINK 3),
                 door := Some open_door, level := 3\<rparr>"

text \<open>The second chaser runs from (700, 500) straight to the runner waiting at
  (337, 538.5): \<open>on_track t\<close> is the point of that segment at the fraction \<open>t\<close> of its length
  \<open>track\<close> from the runner.\<close>

definition on_track :: "real \<Rightarrow> Vector2" where
  "on_track t = \<lparr>Vector2.x = 337 + 363 * t, Vector2.y = 538.5 - 38.5 * t\<rparr>"

definition track :: real where
  "track = Length \<lparr>Vector2.x = - 363, Vector2.y = 38.5\<rparr>"

text \<open>The session during the chase on level 3: the runner at \<open>p\<close>, the door open, the second
  chaser on the track at least 40 pixels from (337, 538.5), the first chaser still far
  above.\<close>

definition chasing :: "Vector2 \<Rightarrow> real \<Rightarrow> Game \<Rightarrow> bool" where
  "chasing p t g \<longleftrightarrow>
     reachable g \<and> \<not> gameOver g \<and> \<not> robberEscaped g \<and> robber g = runner_at p \<and>
     walls g = the_walls \<and> rng g = session_rand \<and> coins g = five_coins \<and> score g = 0 \<and>
     level g = 3 \<and> slowingZone g = Some session_zone \<and> door g = Some open_door \<and>
     (\<exists>c2. cop2 g = Some c2 \<and> radius c2 = 20 \<and> speed c2 = 3 \<and> Character.position c2 = on_track t) \<and>
     radius (cop g) = 20 \<and> speed (cop g) = 3 \<and>
     20 \<le> Vector2.y (Character.position (cop g)) \<and>
     Vector2.y (Character.position (cop g)) + t * track \<le> 480 \<and>
     40 \<le> t * track \<and> t \<le> 1"

text \<open>A runner at (200, 200) with the chaser 30 pixels to its left: the next frame is a
  catch.\<close>

definition about_to_be_caught :: Game where
  "about_to_be_caught = caught_game\<lparr>gameOver := False\<rparr>"

subsection \<open>A second session: the coins at the runner's feet\<close>








subsection \<open>A runner caught near the chaser's corner\<close>



section \<open>Auxiliary facts\<close>

lemmas entity_defs = new_Cop_def new_Robber_def new_Wall_def new_Coin_def new_Door_def
  new_SlowingZone_def copRadius_def playerRadius_def wallThickness_def screenWidth_def
  screenHeight_def GetScreenWidth_def GetScreenHeight_def maxCoins_def

subsection \<open>Vectors and collisions\<close>

lemma Length_nonneg: "0 \<le> Length v"
  by (simp add: Length_def)

lemma Length_Scale: "Length (Scale v k) = \<bar>k\<bar> * Length v"
proof -
  have "Vector2.x v * k * (Vector2.x v * k) + Vector2.y v * k * (Vector2.y v * k)
        = k\<^sup>2 * (Vector2.x v * Vector2.x v + Vector2.y v * Vector2.y v)"
    by (simp add: power2_eq_square algebra_simps)
  then show ?thesis
    by (simp add: Length_def Scale_def real_sqrt_mult)
qed

lemma Length_3_4: "Length \<lparr>Vector2.x = 3, Vector2.y = 4\<rparr> = 5"
proof -
  have "sqrt 25 = (5::real)" by (rule real_sqrt_unique) simp_all
  then show ?thesis by (simp add: Length_def)
qed

lemma sqrt_le_iff_sq: "0 \<le> b \<Longrightarrow> sqrt a \<le> b \<longleftrightarrow> a \<le> b\<^sup>2"
  using real_sqrt_le_iff [of a "b\<^sup>2"] by simp

lemma sqrt_less_iff_sq: "0 \<le> b \<Longrightarrow> sqrt a < b \<longleftrightarrow> a < b\<^sup>2"
  using real_sqrt_less_iff [of a "b\<^sup>2"] by simp

lemma CheckCollisionCircles_sq:
  "0 \<le> r1 + r2 \<Longrightarrow>
   CheckCollisionCircles c1 r1 c2 r2 \<longleftrightarrow>
     (Vector2.x c2 - Vector2.x c1) * (Vector2.x c2 - Vector2.x c1) +
     (Vector2.y c2 - Vector2.y c1) * (Vector2.y c2 - Vector2.y c1) < (r1 + r2) * (r1 + r2)"
  by (simp add: CheckCollisionCircles_def Length_def Subtract_def sqrt_less_iff_sq power2_eq_square)

lemma CheckCollisionCircleRec_sq:
  "0 \<le> r \<Longrightarrow>
   CheckCollisionCircleRec c r rec \<longleftrightarrow>
     (Vector2.x c - max (Rectangle.x rec) (min (Vector2.x c) (Rectangle.x rec + width rec))) *
     (Vector2.x c - max (Rectangle.x rec) (min (Vector2.x c) (Rectangle.x rec + width rec))) +
     (Vector2.y c - max (Rectangle.y rec) (min (Vector2.y c) (Rectangle.y rec + height rec))) *
     (Vector2.y c - max (Rectangle.y rec) (min (Vector2.y c) (Rectangle.y rec + height rec))) \<le> r * r"
  by (simp add: CheckCollisionCircleRec_def closestPoint_def Length_def Subtract_def sqrt_le_iff_sq
      power2_eq_square)

lemma Normalize_horizontal:
  "0 < a \<Longrightarrow> Normalize \<lparr>Vector2.x = a, Vector2.y = 0\<rparr> = \<lparr>Vector2.x = 1, Vector2.y = 0\<rparr>"
  by (simp add: Normalize_def Length_def Scale_def Let_def)

lemma atan2f_right: "0 < a \<Longrightarrow> atan2f 0 a = 0"
  by (simp add: atan2f_def)

subsection \<open>The random generator and the coins\<close>

lemma snd_rand_rand: "snd (rand (snd (rand s))) = rand_drop 2 s"
  by (simp add: rand_def rand_drop_def fun_eq_iff)

lemma rand_drop_0: "rand_drop 0 s = s"
  by (simp add: rand_drop_def)

lemma rand_drop_drop: "rand_drop m (rand_drop n s) = rand_drop (n + m) s"
  by (simp add: rand_drop_def fun_eq_iff ac_simps)

lemma coins_possible_drop:
  assumes "coins_possible ws s"
  shows "coins_possible ws (rand_drop (2 * m) s)"
  unfolding coins_possible_def
proof
  fix n
  from assms obtain k where "generateCoins_valid (coinPosition_of (rand_drop (2 * ((m + n) + k)) s)) ws"
    unfolding coins_possible_def by blast
  then have "generateCoins_valid (coinPosition_of (rand_drop (2 * (n + k)) (rand_drop (2 * m) s))) ws"
    by (simp add: rand_drop_drop algebra_simps)
  then show "\<exists>k. generateCoins_valid (coinPosition_of (rand_drop (2 * (n + k)) (rand_drop (2 * m) s))) ws" ..
qed

lemma generateCoins_valid_iff:
  "generateCoins_valid p ws \<longleftrightarrow> (\<forall>w\<in>set ws. \<not> CheckCollisionPointRec p (Wall.rect w))"
  by (induction ws) auto

text \<open>Partial correctness of the sampling loop, by the induction rule of the partial
  function.\<close>

lemma generateCoins_sample_valid:
  assumes "generateCoins_sample ws s = Some (p, s')"
  shows "generateCoins_valid p ws"
proof -
  have "generateCoins_sample ws s = Some r \<Longrightarrow> generateCoins_valid (fst r) ws" for r
  proof (rule generateCoins_sample.raw_induct
      [where P = "\<lambda>ws s r. generateCoins_valid (fst r) ws"], goal_cases)
    case (1 f ws' s' r')
    then show ?case by (auto split: if_splits)
  qed
  with assms show ?thesis by fastforce
qed

text \<open>Termination of the sampling loop when a valid pair is \<open>k\<close> pairs ahead: induction
  on \<open>k\<close>, unfolding the loop once per step.\<close>

lemma generateCoins_sample_returns:
  "generateCoins_valid (coinPosition_of (rand_drop (2 * k) s)) ws \<Longrightarrow>
   \<exists>j\<le>k. generateCoins_sample ws s =
            Some (coinPosition_of (rand_drop (2 * j) s), rand_drop (2 * Suc j) s)"
proof (induction k arbitrary: s)
  case 0
  then show ?case
    by (subst generateCoins_sample.simps) (simp add: rand_drop_0 snd_rand_rand numeral_2_eq_2)
next
  case (Suc k)
  show ?case
  proof (cases "generateCoins_valid (coinPosition_of s) ws")
    case True
    then have "generateCoins_sample ws s =
        Some (coinPosition_of (rand_drop (2 * 0) s), rand_drop (2 * Suc 0) s)"
      by (subst generateCoins_sample.simps) (simp add: rand_drop_0 snd_rand_rand numeral_2_eq_2)
    then show ?thesis by blast
  next
    case False
    then have step: "generateCoins_sample ws s = generateCoins_sample ws (rand_drop 2 s)"
      by (subst generateCoins_sample.simps) (simp add: snd_rand_rand)
    from Suc.prems have "generateCoins_valid (coinPosition_of (rand_drop (2 * k) (rand_drop 2 s))) ws"
      by (simp add: rand_drop_drop)
    from Suc.IH [OF this] obtain j where j: "j \<le> k"
      "generateCoins_sample ws (rand_drop 2 s) =
         Some (coinPosition_of (rand_drop (2 * j) (rand_drop 2 s)), rand_drop (2 * Suc j) (rand_drop 2 s))"
      by blast
    have "generateCoins_sample ws s =
         Some (coinPosition_of (rand_drop (2 * Suc j) s), rand_drop (2 * Suc (Suc j)) s)"
      using j(2) step by (simp add: rand_drop_drop)
    with j(1) show ?thesis by (meson Suc_le_mono)
  qed
qed

lemma generateCoins_sample_possible:
  assumes "coins_possible ws s"
  shows "\<exists>p s'. generateCoins_sample ws s = Some (p, s') \<and> coins_possible ws s'"
proof -
  from assms obtain k where "generateCoins_valid (coinPosition_of (rand_drop (2 * k) s)) ws"
    unfolding coins_possible_def by (metis add_0)
  from generateCoins_sample_returns [OF this] obtain j where
    j: "generateCoins_sample ws s = Some (coinPosition_of (rand_drop (2 * j) s), rand_drop (2 * Suc j) s)"
    by blast
  from coins_possible_drop [OF assms, of "Suc j"] have "coins_possible ws (rand_drop (2 * Suc j) s)" .
  with j show ?thesis by blast
qed

lemma generateCoins_loop_possible:
  "coins_possible ws s \<Longrightarrow>
   \<exists>cs' s'. generateCoins_loop n ws cs s = Some (cs', s') \<and> coins_possible ws s'"
proof (induction n arbitrary: cs s)
  case 0
  then show ?case by simp
next
  case (Suc n)
  from generateCoins_sample_possible [OF Suc.prems] obtain p s1 where
    p: "generateCoins_sample ws s = Some (p, s1)" "coins_possible ws s1" by blast
  from Suc.IH [OF p(2), of "cs @ [new_Coin p]"] p(1) show ?case by simp
qed

lemma generateCoins_loop_result:
  "generateCoins_loop n ws cs s = Some (cs', s') \<Longrightarrow>
   \<exists>new. cs' = cs @ new \<and> length new = n \<and>
     (\<forall>c\<in>set new. \<not> collected c \<and> generateCoins_valid (Coin.position c) ws)"
proof (induction n arbitrary: cs s)
  case 0
  then show ?case by simp
next
  case (Suc n)
  from Suc.prems obtain p s1 where
    p: "generateCoins_sample ws s = Some (p, s1)"
    and l: "generateCoins_loop n ws (cs @ [new_Coin p]) s1 = Some (cs', s')"
    by (auto split: option.splits)
  from Suc.IH [OF l] obtain new where
    new: "cs' = (cs @ [new_Coin p]) @ new" "length new = n"
      "\<forall>c\<in>set new. \<not> collected c \<and> generateCoins_valid (Coin.position c) ws"
    by blast
  from generateCoins_sample_valid [OF p] have "generateCoins_valid p ws" .
  with new have "cs' = cs @ (new_Coin p # new) \<and> length (new_Coin p # new) = Suc n \<and>
     (\<forall>c\<in>set (new_Coin p # new). \<not> collected c \<and> generateCoins_valid (Coin.position c) ws)"
    by (simp add: new_Coin_def)
  then show ?case by blast
qed

lemma generateCoins_result:
  assumes "generateCoins g = Some g'"
  shows "\<exists>cs s. g' = g\<lparr>coins := cs, rng := s\<rparr> \<and> fresh_coins (walls g) cs \<and>
     generateCoins_loop (nat maxCoins) (walls g) [] (rng g) = Some (cs, s)"
proof -
  from assms obtain cs s where l: "generateCoins_loop (nat maxCoins) (walls g) [] (rng g) = Some (cs, s)"
    and g': "g' = g\<lparr>coins := cs, rng := s\<rparr>"
    by (auto simp: generateCoins_def split: option.splits)
  from generateCoins_loop_result [OF l] have "fresh_coins (walls g) cs"
    by (auto simp: fresh_coins_def generateCoins_valid_iff maxCoins_def)
  with g' l show ?thesis by blast
qed

lemma generateCoins_returns:
  assumes "coins_possible (walls g) (rng g)"
  shows "\<exists>g'. generateCoins g = Some g'"
  using generateCoins_loop_possible [OF assms, of "nat maxCoins" "[]"]
  by (auto simp: generateCoins_def)

subsection \<open>The wall loop of Cop::move\<close>

lemma Cop_move_walls_none:
  "\<forall>w\<in>set ws. \<not> overlaps c p w \<Longrightarrow> Cop_move_walls c d p ws = p"
  by (induction ws) (simp_all add: overlaps_def)

lemma Cop_move_walls_hit:
  "\<forall>w\<in>set before. \<not> overlaps c p w \<Longrightarrow> overlaps c p wall \<Longrightarrow>
   Cop_move_walls c d p (before @ wall # after) =
     (let n1 = Add (Character.position c) (Scale \<lparr>Vector2.x = - Vector2.y d, Vector2.y = Vector2.x d\<rparr> (speed c));
          n2 = Add (Character.position c) (Scale \<lparr>Vector2.x = - Vector2.y d, Vector2.y = Vector2.x d\<rparr> (- speed c))
      in if \<not> overlaps c n1 wall then n1 else if \<not> overlaps c n2 wall then n2
         else Character.position c)"
  by (induction before) (simp_all add: overlaps_def Let_def)

lemma Cop_move_clamp_inArena: "inArena rad p \<Longrightarrow> Cop_move_clamp rad p = p"
  by (simp add: inArena_def Cop_move_clamp_def Let_def)

lemma Cop_move_position:
  "Character.position (Cop_move c target ws) =
     Cop_move_clamp (radius c)
       (Cop_move_walls c (Normalize (Subtract (Character.position target) (Character.position c)))
          (candidate c target) ws)"
  by (simp add: Cop_move_def candidate_def Let_def)

subsection \<open>What each step of a frame leaves alone\<close>

lemma update_hitsWall_iff:
  "update_hitsWall r ws \<longleftrightarrow>
     (\<exists>w\<in>set ws. CheckCollisionCircleRec (Character.position r) (real_of_int (radius r)) (Wall.rect w))"
  by (induction ws) auto

lemma Robber_move_fields:
  "radius (Robber_move inp r) = radius r"
  "speed (Robber_move inp r) = speed r"
  "color (Robber_move inp r) = color r"
  by (simp_all add: Robber_move_def Let_def)

lemma update_robber_fields:
  "cop (update_robber inp g) = cop g" "cop2 (update_robber inp g) = cop2 g"
  "door (update_robber inp g) = door g" "coins (update_robber inp g) = coins g"
  "walls (update_robber inp g) = walls g" "slowingZone (update_robber inp g) = slowingZone g"
  "score (update_robber inp g) = score g" "gameOver (update_robber inp g) = gameOver g"
  "robberEscaped (update_robber inp g) = robberEscaped g" "level (update_robber inp g) = level g"
  "rng (update_robber inp g) = rng g"
  "radius (robber (update_robber inp g)) = radius (robber g)"
  "speed (robber (update_robber inp g)) = speed (robber g)"
  by (simp_all add: update_robber_def Let_def Robber_move_fields)

lemma update_robber_position:
  "Character.position (robber (update_robber inp g)) =
     (if update_hitsWall (Robber_move inp (robber g)) (walls g)
      then Character.position (robber g)
      else Character.position (Robber_move inp (robber g)))"
  by (simp add: update_robber_def Let_def)

lemma update_speed_fields:
  "cop (update_speed g) = cop g" "cop2 (update_speed g) = cop2 g"
  "door (update_speed g) = door g" "coins (update_speed g) = coins g"
  "walls (update_speed g) = walls g" "slowingZone (update_speed g) = slowingZone g"
  "score (update_speed g) = score g" "gameOver (update_speed g) = gameOver g"
  "robberEscaped (update_speed g) = robberEscaped g" "level (update_speed g) = level g"
  "rng (update_speed g) = rng g"
  "radius (robber (update_speed g)) = radius (robber g)"
  "Character.position (robber (update_speed g)) = Character.position (robber g)"
  by (simp_all add: update_speed_def)


lemma update_cops_fields:
  "robber (update_cops g) = robber g"
  "door (update_cops g) = door g" "coins (update_cops g) = coins g"
  "walls (update_cops g) = walls g" "slowingZone (update_cops g) = slowingZone g"
  "score (update_cops g) = score g" "gameOver (update_cops g) = gameOver g"
  "robberEscaped (update_cops g) = robberEscaped g" "level (update_cops g) = level g"
  "rng (update_cops g) = rng g"
  by (simp_all add: update_cops_def Let_def split: option.splits)

lemma update_cops_cop:
  "cop (update_cops g) = Cop_move (cop g) (robber g) (walls g)"
  "cop2 (update_cops g) = map_option (\<lambda>c2. Cop_move c2 (robber g) (walls g)) (cop2 g)"
  by (simp_all add: update_cops_def Let_def split: option.splits)

lemma update_caught_fields:
  "robber (update_caught g) = robber g" "cop (update_caught g) = cop g"
  "cop2 (update_caught g) = cop2 g"
  "door (update_caught g) = door g" "coins (update_caught g) = coins g"
  "walls (update_caught g) = walls g" "slowingZone (update_caught g) = slowingZone g"
  "score (update_caught g) = score g"
  "robberEscaped (update_caught g) = robberEscaped g" "level (update_caught g) = level g"
  "rng (update_caught g) = rng g"
  by (simp_all add: update_caught_def)

lemma update_coins_fields:
  "robber (update_coins g) = robber g" "cop (update_coins g) = cop g"
  "cop2 (update_coins g) = cop2 g"
  "door (update_coins g) = door g"
  "walls (update_coins g) = walls g" "slowingZone (update_coins g) = slowingZone g"
  "gameOver (update_coins g) = gameOver g"
  "robberEscaped (update_coins g) = robberEscaped g" "level (update_coins g) = level g"
  "rng (update_coins g) = rng g"
  by (simp_all add: update_coins_def)

lemma update_door_fields:
  "robber (update_door g) = robber g" "cop (update_door g) = cop g"
  "cop2 (update_door g) = cop2 g"
  "door (update_door g) = door g" "coins (update_door g) = coins g"
  "walls (update_door g) = walls g" "slowingZone (update_door g) = slowingZone g"
  "score (update_door g) = score g" "gameOver (update_door g) = gameOver g"
  "level (update_door g) = level g"
  "rng (update_door g) = rng g"
  by (simp_all add: update_door_def split: option.splits)

lemmas step_fields = update_robber_fields update_speed_fields update_cops_fields
  update_caught_fields update_coins_fields update_door_fields

subsection \<open>The coin loop\<close>

lemma update_coins_loop_score:
  "snd (update_coins_loop r cs sc) = sc + int (length (filter (touching r) cs))"
  by (induction cs arbitrary: sc) (simp_all add: touching_def)

lemma update_coins_loop_coins:
  "fst (update_coins_loop r cs sc) =
     map (\<lambda>c. if touching r c then c\<lparr>collected := True\<rparr> else c) cs"
  by (induction cs arbitrary: sc) (simp_all add: touching_def)

lemma collected_game_fields:
  "robber (collected_game inp g) = moved_robber inp g"
  "walls (collected_game inp g) = walls g"
  "level (collected_game inp g) = level g"
  "rng (collected_game inp g) = rng g"
  "slowingZone (collected_game inp g) = slowingZone g"
  "door (collected_game inp g) = door g"
  "robberEscaped (collected_game inp g) = robberEscaped g"
  by (simp_all add: collected_game_def moved_robber_def step_fields)

lemma collected_game_score:
  "score (collected_game inp g) =
     score g + int (length (filter (touching (moved_robber inp g)) (coins g)))"
  by (simp add: collected_game_def moved_robber_def update_coins_def update_coins_loop_score
      step_fields)

lemma moved_robber_position:
  "Character.position (moved_robber inp g) =
     (if update_hitsWall (Robber_move inp (robber g)) (walls g)
      then Character.position (robber g)
      else Character.position (Robber_move inp (robber g)))"
  by (simp add: moved_robber_def step_fields update_robber_position)


lemma moved_robber_radius: "radius (moved_robber inp g) = radius (robber g)"
  by (simp add: moved_robber_def step_fields)

subsection \<open>advanceLevel and resetGame\<close>

lemma advanceLevel_returns:
  assumes "coins_possible (walls g) (rng g)"
  shows "\<exists>g'. advanceLevel g = Some g'"
proof -
  from assms have "coins_possible (walls (g\<lparr>level := level g + 1, score := 0\<rparr>))
      (rng (g\<lparr>level := level g + 1, score := 0\<rparr>))" by simp
  from generateCoins_returns [OF this] show ?thesis
    by (auto simp: advanceLevel_def)
qed

lemma advanceLevel_fields:
  assumes "advanceLevel g = Some g'"
  shows "robber g' = robber g" "cop g' = cop g" "walls g' = walls g" "score g' = 0"
    "level g' = level g + 1" "robberEscaped g' = robberEscaped g"
    "fresh_coins (walls g) (coins g')"
proof -
  from assms obtain g1 where g1: "generateCoins (g\<lparr>level := level g + 1, score := 0\<rparr>) = Some g1"
    by (auto simp: advanceLevel_def split: option.splits)
  from generateCoins_result [OF g1] obtain cs s where
    cs: "g1 = g\<lparr>level := level g + 1, score := 0, coins := cs, rng := s\<rparr>" "fresh_coins (walls g) cs"
    by auto
  from assms g1 have g': "g' = (if level g1 = 2 then generateSlowingZone g1
                else if level g1 = 3 then
                  generateDoor (g1\<lparr>cop2 := Some (new_Cop
                    \<lparr>Vector2.x = real_of_int screenWidth - 100, Vector2.y = real_of_int screenHeight - 100\<rparr>
                    copRadius PINK 3)\<rparr>)
                else g1\<lparr>gameOver := True\<rparr>)"
    by (simp add: advanceLevel_def)
  show "robber g' = robber g" "cop g' = cop g" "walls g' = walls g" "score g' = 0"
    "level g' = level g + 1" "robberEscaped g' = robberEscaped g"
    using cs(1) by (simp_all add: g' generateSlowingZone_def generateDoor_def Let_def)
  show "fresh_coins (walls g) (coins g')"
    using cs by (simp add: g' generateSlowingZone_def generateDoor_def Let_def)
qed




lemma update_playing:
  "\<not> gameOver g \<Longrightarrow> \<not> robberEscaped g \<Longrightarrow>
   update inp g = map_option update_door (update_level (collected_game inp g))"
  by (simp add: update_def collected_game_def split: option.splits)

subsection \<open>A frame always ends when coins can be placed\<close>

lemma update_level_returns:
  "coins_possible (walls g) (rng g) \<Longrightarrow> \<exists>g'. update_level g = Some g'"
  by (simp add: update_level_def advanceLevel_returns)

lemma resetGame_returns:
  assumes "coins_possible (walls g) (rng g)"
  shows "\<exists>g'. resetGame g = Some g'"
  unfolding resetGame_def
  by (rule generateCoins_returns) (simp add: assms)

lemma update_returns:
  assumes "coins_possible (walls g) (rng g)"
  shows "\<exists>g'. update inp g = Some g'"
proof (cases "\<not> gameOver g \<and> \<not> robberEscaped g")
  case True
  from assms have "coins_possible (walls (collected_game inp g)) (rng (collected_game inp g))"
    by (simp add: collected_game_fields)
  from update_level_returns [OF this] True show ?thesis
    by (auto simp: update_playing)
next
  case False
  with resetGame_returns [OF assms] show ?thesis
    by (auto simp: update_def)
qed

lemma update_level_fields:
  assumes "update_level g = Some g'"
  shows "robber g' = robber g" "cop g' = cop g" "walls g' = walls g"
    "robberEscaped g' = robberEscaped g"
  using assms advanceLevel_fields [of g g']
  by (auto simp: update_level_def split: if_splits)

lemma update_playing_result:
  assumes "\<not> gameOver g" "\<not> robberEscaped g" "update inp g = Some g'"
  shows "\<exists>g2. update_level (collected_game inp g) = Some g2 \<and> g' = update_door g2"
  using assms by (auto simp: update_playing)

lemma resetGame_result:
  assumes "resetGame g = Some g'"
  shows "\<exists>cs s. fresh_coins (walls g) cs \<and>
     generateCoins_loop (nat maxCoins) (walls g) [] (rng g) = Some (cs, s) \<and>
     g' = g\<lparr>score := 0, level := 1, gameOver := False, robberEscaped := False,
            cop2 := None, slowingZone := None, door := None,
            cop := new_Cop \<lparr>Vector2.x = 100, Vector2.y = 100\<rparr> copRadius RED 3,
            coins := cs, rng := s\<rparr>"
proof -
  let ?g0 = "g\<lparr>score := 0, level := 1, gameOver := False, robberEscaped := False,
            cop2 := None, slowingZone := None, door := None,
            cop := new_Cop \<lparr>Vector2.x = 100, Vector2.y = 100\<rparr> copRadius RED 3\<rparr>"
  from assms have g: "generateCoins ?g0 = Some g'" by (simp add: resetGame_def)
  from generateCoins_result [OF g] show ?thesis by auto
qed

subsection \<open>The example generator\<close>

lemma rand_drop_session: "rand_drop n session_rand = session_rand"
  by (simp add: rand_drop_def session_rand_def)

lemma coinPosition_of_session:
  "coinPosition_of session_rand = \<lparr>Vector2.x = 305, Vector2.y = 545\<rparr>"
  by (simp add: coinPosition_of_def rand_def session_rand_def entity_defs)

lemma valid_session: "generateCoins_valid (coinPosition_of session_rand) the_walls"
  by (simp add: coinPosition_of_session the_walls_def new_Wall_def CheckCollisionPointRec_def)

lemma coins_possible_session: "coins_possible the_walls session_rand"
  by (simp add: coins_possible_def rand_drop_session valid_session)

lemma coins_possible_nowalls: "coins_possible [] s"
  by (simp add: coins_possible_def)

lemma generateCoins_sample_session:
  "ws = [] \<or> ws = the_walls \<Longrightarrow>
   generateCoins_sample ws session_rand = Some (\<lparr>Vector2.x = 305, Vector2.y = 545\<rparr>, session_rand)"
  using valid_session
  by (subst generateCoins_sample.simps)
     (auto simp: coinPosition_of_session snd_rand_rand rand_drop_session)

lemma generateCoins_loop_session:
  "ws = [] \<or> ws = the_walls \<Longrightarrow>
   generateCoins_loop n ws cs session_rand =
     Some (cs @ replicate n (new_Coin \<lparr>Vector2.x = 305, Vector2.y = 545\<rparr>), session_rand)"
  by (induction n arbitrary: cs) (simp_all add: generateCoins_sample_session replicate_app_Cons_same)

lemma generateCoins_session:
  "walls g = [] \<or> walls g = the_walls \<Longrightarrow> rng g = session_rand \<Longrightarrow>
   generateCoins g = Some (g\<lparr>coins := replicate 5 (new_Coin \<lparr>Vector2.x = 305, Vector2.y = 545\<rparr>)\<rparr>)"
  by (simp add: generateCoins_def generateCoins_loop_session maxCoins_def)

lemma new_Game_session: "new_Game session_rand = Some start_game"
  by (simp add: new_Game_def generateCoins_session generateWalls_def start_game_def
      the_walls_def entity_defs)

lemma reachable_start_game: "reachable start_game"
  by (rule reachable.start) (rule new_Game_session)

subsection \<open>Distances along one axis\<close>

lemma abs_le_Length: "\<bar>Vector2.x v\<bar> \<le> Length v" "\<bar>Vector2.y v\<bar> \<le> Length v"
proof -
  have "\<bar>a\<bar> \<le> sqrt (a * a + b * b)" "\<bar>b\<bar> \<le> sqrt (a * a + b * b)" for a b :: real
    by (rule real_le_rsqrt, simp add: power2_eq_square)+
  then show "\<bar>Vector2.x v\<bar> \<le> Length v" "\<bar>Vector2.y v\<bar> \<le> Length v"
    by (simp_all add: Length_def)
qed

lemma circles_apart_x:
  "r1 + r2 \<le> \<bar>Vector2.x c2 - Vector2.x c1\<bar> \<Longrightarrow> \<not> CheckCollisionCircles c1 r1 c2 r2"
  using abs_le_Length(1) [of "Subtract c2 c1"]
  by (simp add: CheckCollisionCircles_def Subtract_def)

lemma circles_apart_y:
  "r1 + r2 \<le> \<bar>Vector2.y c2 - Vector2.y c1\<bar> \<Longrightarrow> \<not> CheckCollisionCircles c1 r1 c2 r2"
  using abs_le_Length(2) [of "Subtract c2 c1"]
  by (simp add: CheckCollisionCircles_def Subtract_def)

lemma rect_apart_x:
  assumes "0 \<le> width rec"
    and "Vector2.x c + r < Rectangle.x rec \<or> Rectangle.x rec + width rec + r < Vector2.x c"
  shows "\<not> CheckCollisionCircleRec c r rec"
proof
  assume "CheckCollisionCircleRec c r rec"
  with abs_le_Length(1) [of "Subtract c (closestPoint c rec)"]
  have "\<bar>Vector2.x c - max (Rectangle.x rec) (min (Vector2.x c) (Rectangle.x rec + width rec))\<bar> \<le> r"
    by (simp add: CheckCollisionCircleRec_def Subtract_def closestPoint_def)
  with assms show False by linarith
qed

lemma rect_apart_y:
  assumes "0 \<le> height rec"
    and "Vector2.y c + r < Rectangle.y rec \<or> Rectangle.y rec + height rec + r < Vector2.y c"
  shows "\<not> CheckCollisionCircleRec c r rec"
proof
  assume "CheckCollisionCircleRec c r rec"
  with abs_le_Length(2) [of "Subtract c (closestPoint c rec)"]
  have "\<bar>Vector2.y c - max (Rectangle.y rec) (min (Vector2.y c) (Rectangle.y rec + height rec))\<bar> \<le> r"
    by (simp add: CheckCollisionCircleRec_def Subtract_def closestPoint_def)
  with assms show False by linarith
qed

subsection \<open>A chaser moves at most its speed along each axis\<close>

lemma Normalize_le_1: "\<bar>Vector2.x (Normalize v)\<bar> \<le> 1" "\<bar>Vector2.y (Normalize v)\<bar> \<le> 1"
proof -
  have "\<bar>Vector2.x (Normalize v)\<bar> \<le> 1 \<and> \<bar>Vector2.y (Normalize v)\<bar> \<le> 1"
  proof (cases "Length v = 0")
    case True
    then show ?thesis by (simp add: Normalize_def)
  next
    case False
    with Length_nonneg [of v] have "0 < Length v" by simp
    with abs_le_Length [of v] False show ?thesis
      by (simp add: Normalize_def Scale_def Let_def)
  qed
  then show "\<bar>Vector2.x (Normalize v)\<bar> \<le> 1" "\<bar>Vector2.y (Normalize v)\<bar> \<le> 1" by simp_all
qed

lemma Cop_move_walls_cases:
  "Cop_move_walls c d p ws = p \<or>
   Cop_move_walls c d p ws =
     Add (Character.position c) (Scale \<lparr>Vector2.x = - Vector2.y d, Vector2.y = Vector2.x d\<rparr> (speed c)) \<or>
   Cop_move_walls c d p ws =
     Add (Character.position c) (Scale \<lparr>Vector2.x = - Vector2.y d, Vector2.y = Vector2.x d\<rparr> (- speed c)) \<or>
   Cop_move_walls c d p ws = Character.position c"
  by (induction ws) (auto simp: Let_def)

lemma scaled_le:
  fixes a s :: real
  assumes "\<bar>a\<bar> \<le> 1" "0 \<le> s"
  shows "\<bar>a * s\<bar> \<le> s"
proof -
  have "\<bar>a * s\<bar> = \<bar>a\<bar> * s" using assms(2) by (simp add: abs_mult)
  also have "\<dots> \<le> 1 * s" using assms by (intro mult_right_mono) simp_all
  finally show ?thesis by simp
qed

lemma Cop_move_walls_y:
  assumes "0 \<le> speed c"
  shows "\<bar>Vector2.y (Cop_move_walls c (Normalize v) (Add (Character.position c) (Scale (Normalize v) (speed c))) ws)
          - Vector2.y (Character.position c)\<bar> \<le> speed c"
proof -
  from Normalize_le_1 [of v] assms
  have 1: "\<bar>Vector2.x (Normalize v) * speed c\<bar> \<le> speed c"
    and 2: "\<bar>Vector2.y (Normalize v) * speed c\<bar> \<le> speed c"
    by (simp_all add: scaled_le)
  from Cop_move_walls_cases [of c "Normalize v" "Add (Character.position c) (Scale (Normalize v) (speed c))" ws]
  show ?thesis
    using 1 2 assms by (auto simp: Add_def Scale_def)
qed

lemma Cop_move_clamp_y:
  assumes "real_of_int rad \<le> a" "\<bar>Vector2.y p - a\<bar> \<le> s" "0 \<le> rad" "2 * rad \<le> GetScreenHeight"
  shows "real_of_int rad \<le> Vector2.y (Cop_move_clamp rad p)"
    and "Vector2.y (Cop_move_clamp rad p) \<le> a + s"
  using assms by (auto simp: Cop_move_clamp_def Let_def)

lemma Cop_move_y:
  assumes "0 \<le> speed c" "0 \<le> radius c" "2 * radius c \<le> GetScreenHeight"
    "real_of_int (radius c) \<le> Vector2.y (Character.position c)"
  shows "real_of_int (radius c) \<le> Vector2.y (Character.position (Cop_move c target ws))"
    and "Vector2.y (Character.position (Cop_move c target ws)) \<le> Vector2.y (Character.position c) + speed c"
    and "radius (Cop_move c target ws) = radius c"
    and "speed (Cop_move c target ws) = speed c"
proof -
  let ?v = "Subtract (Character.position target) (Character.position c)"
  let ?q = "Cop_move_walls c (Normalize ?v) (Add (Character.position c) (Scale (Normalize ?v) (speed c))) ws"
  have p: "Character.position (Cop_move c target ws) = Cop_move_clamp (radius c) ?q"
    by (simp add: Cop_move_def Let_def)
  from Cop_move_walls_y [OF assms(1), of ?v ws]
  have b: "\<bar>Vector2.y ?q - Vector2.y (Character.position c)\<bar> \<le> speed c" .
  from Cop_move_clamp_y [OF assms(4) b assms(2,3)]
  show "real_of_int (radius c) \<le> Vector2.y (Character.position (Cop_move c target ws))"
    and "Vector2.y (Character.position (Cop_move c target ws)) \<le> Vector2.y (Character.position c) + speed c"
    by (simp_all add: p)
  show "radius (Cop_move c target ws) = radius c" "speed (Cop_move c target ws) = speed c"
    by (simp_all add: Cop_move_def Let_def)
qed

subsection \<open>Invariants of the reachable states\<close>

lemma new_Game_fields:
  assumes "new_Game s = Some g"
  shows "score g = 0" "level g = 1" "slowingZone g = None" "\<not> gameOver g" "\<not> robberEscaped g"
proof -
  from assms obtain g0 where g0: "generateCoins
        \<lparr>robber = new_Robber \<lparr>Vector2.x = real_of_int screenWidth / 2, Vector2.y = real_of_int screenHeight / 2\<rparr>
                    playerRadius BLUE 4.5,
         cop = new_Cop \<lparr>Vector2.x = 100, Vector2.y = 100\<rparr> copRadius RED 3,
         cop2 = None, door = None, coins = [], walls = [], slowingZone = None,
         score = 0, gameOver = False, robberEscaped = False, level = 1, rng = s\<rparr> = Some g0"
    and g: "g = generateWalls g0"
    by (auto simp: new_Game_def split: option.splits)
  from generateCoins_result [OF g0] g
  show "score g = 0" "level g = 1" "slowingZone g = None" "\<not> gameOver g" "\<not> robberEscaped g"
    by (auto simp: generateWalls_def)
qed

lemma update_level_score:
  assumes "update_level g = Some g'" "0 \<le> score g"
  shows "0 \<le> score g' \<and> score g' < maxCoins"
    and "maxCoins \<le> score g \<Longrightarrow> score g' = 0"
  using assms advanceLevel_fields(4) [of g g']
  by (auto simp: update_level_def maxCoins_def split: if_splits)

lemma collected_game_score_ge: "score g \<le> score (collected_game inp g)"
  by (simp add: collected_game_score)

lemma reachable_score:
  "reachable g \<Longrightarrow> 0 \<le> score g \<and> score g < maxCoins"
proof (induction rule: reachable.induct)
  case (start s g)
  then show ?case by (simp add: new_Game_fields maxCoins_def)
next
  case (frame g inp g')
  show ?case
  proof (cases "\<not> gameOver g \<and> \<not> robberEscaped g")
    case True
    with frame.hyps(2) update_playing_result [of g inp g'] obtain g2 where
      g2: "update_level (collected_game inp g) = Some g2" "g' = update_door g2" by blast
    from frame.IH collected_game_score_ge [of g inp] have "0 \<le> score (collected_game inp g)"
      by simp
    from update_level_score(1) [OF g2(1) this] g2(2) show ?thesis
      by (simp add: update_door_fields)
  next
    case False
    show ?thesis
    proof (cases "IsKeyPressed inp KEY_R")
      case True
      with False frame.hyps(2) have "resetGame g = Some g'" by (auto simp: update_def)
      from resetGame_result [OF this] show ?thesis by (auto simp: maxCoins_def)
    next
      case no: False
      with False frame.hyps(2) have "g' = g" by (auto simp: update_def)
      with frame.IH show ?thesis by simp
    qed
  qed
qed



subsection \<open>Facts about the example games\<close>

lemma the_walls_hit:
  "update_hitsWall r the_walls \<longleftrightarrow>
     CheckCollisionCircleRec (Character.position r) (real_of_int (radius r))
       \<lparr>Rectangle.x = 150, y = 150, width = 200, height = 20\<rparr> \<or>
     CheckCollisionCircleRec (Character.position r) (real_of_int (radius r))
       \<lparr>Rectangle.x = 450, y = 300, width = 20, height = 200\<rparr> \<or>
     CheckCollisionCircleRec (Character.position r) (real_of_int (radius r))
       \<lparr>Rectangle.x = 250, y = 450, width = 300, height = 20\<rparr>"
  by (simp add: the_walls_def new_Wall_def)

lemma touching_example:
  "Character.position r = \<lparr>Vector2.x = 400, Vector2.y = 300\<rparr> \<Longrightarrow> radius r = 20 \<Longrightarrow>
   filter (touching r)
     (replicate 4 ((new_Coin \<lparr>Vector2.x = 305, Vector2.y = 545\<rparr>)\<lparr>collected := True\<rparr>)
        @ [new_Coin \<lparr>Vector2.x = 410, Vector2.y = 300\<rparr>]) =
     [new_Coin \<lparr>Vector2.x = 410, Vector2.y = 300\<rparr>]"
  by (simp add: touching_def new_Coin_def CheckCollisionCircles_sq)

lemma idle_robber: "Robber_move idle r = r"
  by (simp add: Robber_move_def idle_def Let_def)

lemma centre_clear:
  "Character.position r = \<lparr>Vector2.x = 400, Vector2.y = 300\<rparr> \<Longrightarrow> radius r = 20 \<Longrightarrow>
   \<not> update_hitsWall r the_walls"
  by (simp add: the_walls_hit CheckCollisionCircleRec_sq)

lemma fifth_coin_moved:
  "Character.position (moved_robber idle fifth_coin_game) = \<lparr>Vector2.x = 400, Vector2.y = 300\<rparr>"
  "radius (moved_robber idle fifth_coin_game) = 20"
  by (simp_all add: moved_robber_position moved_robber_radius idle_robber centre_clear
      fifth_coin_game_def start_game_def new_Robber_def playerRadius_def)

lemma fifth_coin_touching:
  "length (filter (touching (moved_robber idle fifth_coin_game)) (coins fifth_coin_game)) = 1"
proof -
  have "coins fifth_coin_game =
      replicate 4 ((new_Coin \<lparr>Vector2.x = 305, Vector2.y = 545\<rparr>)\<lparr>collected := True\<rparr>)
        @ [new_Coin \<lparr>Vector2.x = 410, Vector2.y = 300\<rparr>]"
    by (simp add: fifth_coin_game_def)
  then show ?thesis
    by (simp only: touching_example [OF fifth_coin_moved]) simp
qed

lemma fifth_coin_score: "score (collected_game idle fifth_coin_game) = 5"
  by (simp add: collected_game_score fifth_coin_touching)
     (simp add: fifth_coin_game_def)
subsection \<open>Frames of the example session\<close>

text \<open>
  The session starts from \<open>start_game\<close>. The runner walks 38 frames to the left, 53 frames
  down and 10 frames to the right, below the third wall, and stands at (274, 538.5); on
  the way it stays clear of the walls and of the coins. Whenever the chaser catches it,
  the next frame is a reset, which leaves the runner where it is. Thirteen more steps to
  the right bring the runner within reach of all five coins, at (332.5, 538.5), where
  every frame collects the five coins and advances the level; after at most three frames
  the game is over, and a reset puts the chaser back at (100, 100). From there two idle
  frames lead to \<open>level2_game\<close> and \<open>level3_game\<close> (the chaser is too far away to catch the
  runner). On level 3 the runner steps right to (337, 538.5), out of reach of the coins
  and 23 pixels from the door, and waits there while the second chaser comes from
  (700, 500) along a straight line. When that chaser is less than 43 pixels away, the
  runner steps right once more, into the door, and the chaser's step brings it within
  40 pixels: that frame sets both flags.
\<close>

lemma runner_at_fields:
  "Character.position (runner_at p) = p" "radius (runner_at p) = 20" "speed (runner_at p) = 4.5"
  "(runner_at p)\<lparr>Character.position := q\<rparr> = runner_at q"
  "(runner_at p)\<lparr>speed := 4.5\<rparr> = runner_at p"
  by (simp_all add: runner_at_def new_Robber_def playerRadius_def)

lemma Robber_move_eq:
  "Robber_move inp r = r\<lparr>Character.position := Character.position (Robber_move inp r)\<rparr>"
  by (simp add: Robber_move_def Let_def)

lemma Robber_move_runner:
  "Robber_move inp (runner_at p) = runner_at (Character.position (Robber_move inp (runner_at p)))"
  by (subst Robber_move_eq) (simp add: runner_at_fields)

lemma clear_of_walls:
  assumes "190 < b" "a < 430" "b < 430 \<or> a < 230 \<or> 490 < b"
  shows "\<not> update_hitsWall (runner_at \<lparr>Vector2.x = a, Vector2.y = b\<rparr>) the_walls"
proof -
  have 1: "\<not> CheckCollisionCircleRec \<lparr>Vector2.x = a, Vector2.y = b\<rparr> 20
      \<lparr>Rectangle.x = 150, y = 150, width = 200, height = 20\<rparr>"
    using assms(1) by (intro rect_apart_y) simp_all
  have 2: "\<not> CheckCollisionCircleRec \<lparr>Vector2.x = a, Vector2.y = b\<rparr> 20
      \<lparr>Rectangle.x = 450, y = 300, width = 20, height = 200\<rparr>"
    using assms(2) by (intro rect_apart_x) simp_all
  have 3: "\<not> CheckCollisionCircleRec \<lparr>Vector2.x = a, Vector2.y = b\<rparr> 20
      \<lparr>Rectangle.x = 250, y = 450, width = 300, height = 20\<rparr>"
    using assms(3)
  proof (elim disjE)
    assume "b < 430" then show ?thesis by (intro rect_apart_y) simp_all
  next
    assume "a < 230" then show ?thesis by (intro rect_apart_x) simp_all
  next
    assume "490 < b" then show ?thesis by (intro rect_apart_y) simp_all
  qed
  from 1 2 3 show ?thesis
    by (simp add: the_walls_hit runner_at_fields)
qed

lemma away_from_coins:
  assumes "30 \<le> \<bar>305 - a\<bar> \<or> 30 \<le> \<bar>545 - b\<bar>"
  shows "filter (touching (runner_at \<lparr>Vector2.x = a, Vector2.y = b\<rparr>)) five_coins = []"
proof -
  have "\<not> CheckCollisionCircles \<lparr>Vector2.x = a, Vector2.y = b\<rparr> 20 \<lparr>Vector2.x = 305, Vector2.y = 545\<rparr> 10"
    using assms
  proof
    assume "30 \<le> \<bar>305 - a\<bar>" then show ?thesis by (intro circles_apart_x) simp
  next
    assume "30 \<le> \<bar>545 - b\<bar>" then show ?thesis by (intro circles_apart_y) simp
  qed
  then show ?thesis
    by (simp add: five_coins_def touching_def runner_at_fields new_Coin_def)
qed

lemma update_stays:
  assumes "\<not> gameOver g" "\<not> robberEscaped g" "score (collected_game inp g) < maxCoins"
  shows "update inp g = Some (update_door (collected_game inp g))"
  using assms by (simp add: update_playing update_level_def)

lemma collected_game_more:
  "cop2 (collected_game inp g) = map_option (\<lambda>c2. Cop_move c2 (moved_robber inp g) (walls g)) (cop2 g)"
  "cop (collected_game inp g) = Cop_move (cop g) (moved_robber inp g) (walls g)"
  "coins (collected_game inp g) =
     map (\<lambda>c. if touching (moved_robber inp g) c then c\<lparr>collected := True\<rparr> else c) (coins g)"
  by (simp_all add: collected_game_def moved_robber_def step_fields update_cops_cop update_coins_def
      update_coins_loop_coins)

lemma collected_game_gameOver:
  "gameOver (collected_game inp g) \<longleftrightarrow>
     gameOver g \<or>
     CheckCollisionCircles (Character.position (moved_robber inp g)) (real_of_int (radius (moved_robber inp g)))
       (Character.position (cop (collected_game inp g))) (real_of_int (radius (cop (collected_game inp g)))) \<or>
     (case cop2 (collected_game inp g) of None \<Rightarrow> False
      | Some c2 \<Rightarrow> CheckCollisionCircles (Character.position (moved_robber inp g))
          (real_of_int (radius (moved_robber inp g))) (Character.position c2) (real_of_int (radius c2)))"
  by (cases "cop2 g")
     (simp_all add: collected_game_def moved_robber_def step_fields update_caught_def update_cops_cop)

lemma reset_session:
  assumes "walls g = the_walls" "rng g = session_rand" "gameOver g \<or> robberEscaped g"
  shows "update (press KEY_R) g =
     Some (g\<lparr>score := 0, level := 1, gameOver := False, robberEscaped := False,
             cop2 := None, slowingZone := None, door := None,
             cop := new_Cop \<lparr>Vector2.x = 100, Vector2.y = 100\<rparr> copRadius RED 3,
             coins := five_coins\<rparr>)"
  using assms
  by (auto simp: update_def press_def resetGame_def generateCoins_session five_coins_def)

lemma moved_runner:
  assumes "robber g = runner_at p" "walls g = the_walls"
    "Character.position (Robber_move inp (runner_at p)) = p'"
    "\<not> update_hitsWall (runner_at p') the_walls"
    "case slowingZone g of None \<Rightarrow> True | Some z \<Rightarrow> \<not> isInside z p'"
  shows "moved_robber inp g = runner_at p'"
proof -
  from assms(3) Robber_move_runner [of inp p] have m: "Robber_move inp (runner_at p) = runner_at p'"
    by simp
  with assms(1,2,4) have "robber (update_robber inp g) = runner_at p'"
    by (simp add: update_robber_def Let_def)
  with assms(5) show ?thesis
    by (simp add: moved_robber_def update_speed_def update_robber_fields runner_at_fields
        split: option.splits)
qed

lemma travelling_playing:
  assumes "travelling p g"
  shows "\<exists>g'. travelling p g' \<and> \<not> gameOver g'"
proof (cases "gameOver g")
  case False
  with assms show ?thesis by blast
next
  case True
  let ?g' = "g\<lparr>score := 0, level := 1, gameOver := False, robberEscaped := False,
             cop2 := None, slowingZone := None, door := None,
             cop := new_Cop \<lparr>Vector2.x = 100, Vector2.y = 100\<rparr> copRadius RED 3,
             coins := five_coins\<rparr>"
  from assms True have "update (press KEY_R) g = Some ?g'"
    by (intro reset_session) (simp_all add: travelling_def)
  with assms have "reachable ?g'"
    by (auto simp: travelling_def intro: reachable.frame)
  with assms have "travelling p ?g' \<and> \<not> gameOver ?g'"
    by (simp add: travelling_def)
  then show ?thesis by blast
qed

lemma travelling_step:
  assumes t: "travelling p g"
    and m: "Character.position (Robber_move inp (runner_at p)) = \<lparr>Vector2.x = a, Vector2.y = b\<rparr>"
    and w: "190 < b" "a < 430" "b < 430 \<or> a < 230 \<or> 490 < b"
    and far: "30 \<le> \<bar>305 - a\<bar> \<or> 30 \<le> \<bar>545 - b\<bar>"
  shows "\<exists>g'. travelling \<lparr>Vector2.x = a, Vector2.y = b\<rparr> g'"
proof -
  let ?p' = "\<lparr>Vector2.x = a, Vector2.y = b\<rparr>"
  from travelling_playing [OF t] obtain g1 where g1: "travelling p g1" "\<not> gameOver g1" by blast
  from g1(1) have f: "reachable g1" "robber g1 = runner_at p" "walls g1 = the_walls"
    "rng g1 = session_rand" "coins g1 = five_coins" "level g1 = 1" "score g1 = 0"
    "slowingZone g1 = None" "door g1 = None" "cop2 g1 = None" "\<not> robberEscaped g1"
    by (simp_all add: travelling_def)
  have r: "moved_robber inp g1 = runner_at ?p'"
    using f(2,3) m clear_of_walls [OF w] by (rule moved_runner) (simp add: f(8))
  have c: "coins (collected_game inp g1) = five_coins"
    using away_from_coins [OF far]
    by (simp add: collected_game_more r f(5) filter_empty_conv map_idI)
  have s: "score (collected_game inp g1) = 0"
    by (simp add: collected_game_score r f(5,7) away_from_coins [OF far])
  let ?g' = "update_door (collected_game inp g1)"
  from s g1(2) f(11) have u: "update inp g1 = Some ?g'"
    by (intro update_stays) (simp_all add: maxCoins_def)
  with f(1) have "reachable ?g'" by (rule reachable.frame)
  moreover have "cop2 (collected_game inp g1) = None"
    by (simp add: collected_game_more f)
  moreover have "robberEscaped ?g' = robberEscaped g1"
    by (simp add: update_door_def collected_game_fields f)
  ultimately have "travelling ?p' ?g'"
    by (simp add: travelling_def update_door_fields collected_game_fields r c s f)
  then show ?thesis ..
qed

text \<open>One step of the runner in the open.\<close>

lemma move_left:
  "20 < a \<Longrightarrow> Character.position (Robber_move (hold KEY_A) (runner_at \<lparr>Vector2.x = a, Vector2.y = b\<rparr>)) =
     \<lparr>Vector2.x = a - 4.5, Vector2.y = b\<rparr>"
  by (simp add: Robber_move_def hold_def Let_def runner_at_fields)

lemma move_down:
  "b < 580 \<Longrightarrow> Character.position (Robber_move (hold KEY_S) (runner_at \<lparr>Vector2.x = a, Vector2.y = b\<rparr>)) =
     \<lparr>Vector2.x = a, Vector2.y = b + 4.5\<rparr>"
  by (simp add: Robber_move_def hold_def Let_def runner_at_fields entity_defs)

lemma move_right:
  "a < 780 \<Longrightarrow> Character.position (Robber_move (hold KEY_D) (runner_at \<lparr>Vector2.x = a, Vector2.y = b\<rparr>)) =
     \<lparr>Vector2.x = a + 4.5, Vector2.y = b\<rparr>"
  by (simp add: Robber_move_def hold_def Let_def runner_at_fields entity_defs)

lemma travelling_start: "travelling \<lparr>Vector2.x = 400, Vector2.y = 300\<rparr> start_game"
  by (simp add: travelling_def reachable_start_game)
     (simp add: start_game_def runner_at_def five_coins_def)

text \<open>The three legs of the walk, each by induction on the number of frames.\<close>

lemma walk_left:
  "n \<le> 38 \<Longrightarrow> \<exists>g. travelling \<lparr>Vector2.x = 400 - 4.5 * real n, Vector2.y = 300\<rparr> g"
proof (induction n)
  case 0
  from travelling_start show ?case by auto
next
  case (Suc n)
  then obtain g where g: "travelling \<lparr>Vector2.x = 400 - 4.5 * real n, Vector2.y = 300\<rparr> g"
    by auto
  from Suc.prems have n: "real n \<le> 37" by simp
  have m: "Character.position (Robber_move (hold KEY_A)
      (runner_at \<lparr>Vector2.x = 400 - 4.5 * real n, Vector2.y = 300\<rparr>)) =
      \<lparr>Vector2.x = 400 - 4.5 * real (Suc n), Vector2.y = 300\<rparr>"
    using n by (subst move_left) (simp_all add: field_simps)
  show ?case
  proof -
    define a where "a = 400 - 4.5 * real (Suc n)"
    have a: "229 \<le> a" "a \<le> 395.5" using n by (simp_all add: a_def)
    show ?thesis
      unfolding a_def [symmetric]
      by (rule travelling_step [OF g m [folded a_def]]) (use a in auto)
  qed
qed

lemma walk_down:
  "n \<le> 53 \<Longrightarrow> \<exists>g. travelling \<lparr>Vector2.x = 229, Vector2.y = 300 + 4.5 * real n\<rparr> g"
proof (induction n)
  case 0
  from walk_left [of 38] show ?case by simp
next
  case (Suc n)
  then obtain g where g: "travelling \<lparr>Vector2.x = 229, Vector2.y = 300 + 4.5 * real n\<rparr> g"
    by auto
  from Suc.prems have n: "real n \<le> 52" by simp
  have m: "Character.position (Robber_move (hold KEY_S)
      (runner_at \<lparr>Vector2.x = 229, Vector2.y = 300 + 4.5 * real n\<rparr>)) =
      \<lparr>Vector2.x = 229, Vector2.y = 300 + 4.5 * real (Suc n)\<rparr>"
    using n by (subst move_down) (simp_all add: field_simps)
  show ?case
  proof -
    define b where "b = 300 + 4.5 * real (Suc n)"
    have b: "304.5 \<le> b" "b \<le> 538.5" using n by (simp_all add: b_def)
    show ?thesis
      unfolding b_def [symmetric]
      by (rule travelling_step [OF g m [folded b_def]]) (use b in auto)
  qed
qed

lemma walk_right:
  "n \<le> 10 \<Longrightarrow> \<exists>g. travelling \<lparr>Vector2.x = 229 + 4.5 * real n, Vector2.y = 538.5\<rparr> g"
proof (induction n)
  case 0
  from walk_down [of 53] show ?case by simp
next
  case (Suc n)
  then obtain g where g: "travelling \<lparr>Vector2.x = 229 + 4.5 * real n, Vector2.y = 538.5\<rparr> g"
    by auto
  from Suc.prems have n: "real n \<le> 9" by simp
  have m: "Character.position (Robber_move (hold KEY_D)
      (runner_at \<lparr>Vector2.x = 229 + 4.5 * real n, Vector2.y = 538.5\<rparr>)) =
      \<lparr>Vector2.x = 229 + 4.5 * real (Suc n), Vector2.y = 538.5\<rparr>"
    using n by (subst move_right) (simp_all add: field_simps)
  show ?case
  proof -
    define a where "a = 229 + 4.5 * real (Suc n)"
    have a: "233.5 \<le> a" "a \<le> 274" using n by (simp_all add: a_def)
    show ?thesis
      unfolding a_def [symmetric]
      by (rule travelling_step [OF g m [folded a_def]]) (use a in auto)
  qed
qed

text \<open>From the third leg on the level may change: the invariant \<open>wandering\<close>.\<close>

lemma travelling_wandering: "travelling p g \<Longrightarrow> wandering p g"
  by (simp add: travelling_def wandering_def)

lemma wandering_playing:
  assumes "wandering p g"
  shows "\<exists>g'. wandering p g' \<and> \<not> gameOver g'"
proof (cases "gameOver g")
  case False
  with assms show ?thesis by blast
next
  case True
  let ?g' = "g\<lparr>score := 0, level := 1, gameOver := False, robberEscaped := False,
             cop2 := None, slowingZone := None, door := None,
             cop := new_Cop \<lparr>Vector2.x = 100, Vector2.y = 100\<rparr> copRadius RED 3,
             coins := five_coins\<rparr>"
  from assms True have "update (press KEY_R) g = Some ?g'"
    by (intro reset_session) (simp_all add: wandering_def)
  with assms have "reachable ?g'"
    by (auto simp: wandering_def intro: reachable.frame)
  with assms have "wandering p ?g' \<and> \<not> gameOver ?g'"
    by (simp add: wandering_def)
  then show ?thesis by blast
qed

lemma rand_session: "rand session_rand = (5755, session_rand)"
  by (simp add: rand_def session_rand_def)

lemma advanceLevel_session:
  assumes "walls g = the_walls" "rng g = session_rand"
  shows "advanceLevel g =
     Some (if level g = 1 then g\<lparr>level := 2, score := 0, coins := five_coins, slowingZone := Some session_zone\<rparr>
           else if level g = 2 then
             g\<lparr>level := 3, score := 0, coins := five_coins,
               cop2 := Some (new_Cop \<lparr>Vector2.x = 700, Vector2.y = 500\<rparr> copRadius PINK 3),
               door := Some open_door\<rparr>
           else g\<lparr>level := level g + 1, score := 0, coins := five_coins, gameOver := True\<rparr>)"
  using assms
  by (simp add: advanceLevel_def generateCoins_session generateSlowingZone_def generateDoor_def
      rand_session Let_def session_zone_def open_door_def five_coins_def screenWidth_def screenHeight_def)

lemma touching_five:
  assumes "CheckCollisionCircles p 20 \<lparr>Vector2.x = 305, Vector2.y = 545\<rparr> 10"
  shows "length (filter (touching (runner_at p)) five_coins) = 5"
  using assms by (simp add: five_coins_def touching_def new_Coin_def runner_at_fields)

lemma touching_none:
  assumes "\<not> CheckCollisionCircles p 20 \<lparr>Vector2.x = 305, Vector2.y = 545\<rparr> 10"
  shows "filter (touching (runner_at p)) five_coins = []"
  using assms by (simp add: five_coins_def touching_def new_Coin_def runner_at_fields)

text \<open>A frame in which the runner touches the five coins.\<close>

lemma collecting_frame:
  assumes r: "reachable g" and p: "\<not> gameOver g" "\<not> robberEscaped g"
    and f: "walls g = the_walls" "rng g = session_rand" "coins g = five_coins" "score g = 0"
    and m: "moved_robber inp g = runner_at p'"
    and t: "CheckCollisionCircles p' 20 \<lparr>Vector2.x = 305, Vector2.y = 545\<rparr> 10"
  shows "\<exists>g'. update inp g = Some g' \<and> reachable g' \<and> robber g' = runner_at p' \<and>
     walls g' = the_walls \<and> rng g' = session_rand \<and> coins g' = five_coins \<and> score g' = 0 \<and>
     level g' = level g + 1 \<and>
     cop g' = Cop_move (cop g) (runner_at p') the_walls \<and>
     slowingZone g' = (if level g = 1 then Some session_zone else slowingZone g) \<and>
     door g' = (if level g = 2 then Some open_door else door g) \<and>
     cop2 g' = (if level g = 2 then Some (new_Cop \<lparr>Vector2.x = 700, Vector2.y = 500\<rparr> copRadius PINK 3)
                else map_option (\<lambda>c2. Cop_move c2 (runner_at p') the_walls) (cop2 g)) \<and>
     gameOver g' = (gameOver (collected_game inp g) \<or> (level g \<noteq> 1 \<and> level g \<noteq> 2)) \<and>
     robberEscaped g' =
       (case door g' of None \<Rightarrow> False
        | Some d \<Rightarrow> isOpen d \<and> CheckCollisionCircleRec p' 20 (Door.rect d))"
proof -
  let ?c = "collected_game inp g"
  have s: "score ?c = 5"
    by (simp add: collected_game_score m f touching_five [OF t])
  have w: "walls ?c = the_walls" "rng ?c = session_rand"
    by (simp_all add: collected_game_fields f)
  from advanceLevel_session [OF w] obtain g2 where
    g2: "advanceLevel ?c = Some g2"
      "g2 = (if level ?c = 1 then ?c\<lparr>level := 2, score := 0, coins := five_coins, slowingZone := Some session_zone\<rparr>
           else if level ?c = 2 then
             ?c\<lparr>level := 3, score := 0, coins := five_coins,
               cop2 := Some (new_Cop \<lparr>Vector2.x = 700, Vector2.y = 500\<rparr> copRadius PINK 3),
               door := Some open_door\<rparr>
           else ?c\<lparr>level := level ?c + 1, score := 0, coins := five_coins, gameOver := True\<rparr>)"
    by simp
  from p s g2(1) have u: "update inp g = Some (update_door g2)"
    by (simp add: update_playing update_level_def maxCoins_def)
  with r have re: "reachable (update_door g2)" by (rule reachable.frame)
  have fields: "robber g2 = runner_at p'" "walls g2 = the_walls" "rng g2 = session_rand"
    "coins g2 = five_coins" "score g2 = 0" "level g2 = level g + 1"
    "cop g2 = Cop_move (cop g) (runner_at p') the_walls"
    "slowingZone g2 = (if level g = 1 then Some session_zone else slowingZone g)"
    "door g2 = (if level g = 2 then Some open_door else door g)"
    "cop2 g2 = (if level g = 2 then Some (new_Cop \<lparr>Vector2.x = 700, Vector2.y = 500\<rparr> copRadius PINK 3)
                else map_option (\<lambda>c2. Cop_move c2 (runner_at p') the_walls) (cop2 g))"
    "gameOver g2 = (gameOver ?c \<or> (level g \<noteq> 1 \<and> level g \<noteq> 2))"
    "robberEscaped g2 = False"
    by (simp_all add: g2(2) collected_game_fields collected_game_more(1,2) m f p)
  have e: "robberEscaped (update_door g2) =
       (case door g2 of None \<Rightarrow> False
        | Some d \<Rightarrow> isOpen d \<and> CheckCollisionCircleRec p' 20 (Door.rect d))"
    by (simp add: update_door_def fields(1,12) runner_at_fields split: option.splits)
  from u re fields e show ?thesis
    by (simp add: update_door_fields)
qed

text \<open>A frame in which the runner touches no coin.\<close>

lemma quiet_frame:
  assumes p: "\<not> gameOver g" "\<not> robberEscaped g"
    and f: "coins g = five_coins" "score g = 0"
    and m: "moved_robber inp g = runner_at p'"
    and t: "\<not> CheckCollisionCircles p' 20 \<lparr>Vector2.x = 305, Vector2.y = 545\<rparr> 10"
  shows "update inp g = Some (update_door (collected_game inp g))"
    and "coins (collected_game inp g) = five_coins" and "score (collected_game inp g) = 0"
proof -
  show s: "score (collected_game inp g) = 0"
    by (simp add: collected_game_score m f touching_none [OF t])
  show "coins (collected_game inp g) = five_coins"
    using touching_none [OF t]
    by (simp add: collected_game_more m f filter_empty_conv map_idI)
  from s p show "update inp g = Some (update_door (collected_game inp g))"
    by (intro update_stays) (simp_all add: maxCoins_def)
qed

lemma door_apart:
  "a < 340 \<Longrightarrow> \<not> CheckCollisionCircleRec \<lparr>Vector2.x = a, Vector2.y = b\<rparr> 20 (Door.rect open_door)"
  by (rule rect_apart_x) (simp_all add: open_door_def new_Door_def)

lemma zone_apart:
  "355 < b \<Longrightarrow> \<not> isInside session_zone \<lparr>Vector2.x = a, Vector2.y = b\<rparr>"
  by (simp add: isInside_def session_zone_def new_SlowingZone_def CheckCollisionPointRec_def)

lemma wandering_step:
  assumes w: "wandering p g"
    and m: "Character.position (Robber_move inp (runner_at p)) = \<lparr>Vector2.x = a, Vector2.y = b\<rparr>"
    and c: "190 < b" "a < 430" "b < 430 \<or> a < 230 \<or> 490 < b"
    and z: "355 < b" and d: "a < 340"
  shows "\<exists>g'. wandering \<lparr>Vector2.x = a, Vector2.y = b\<rparr> g'"
proof -
  let ?p' = "\<lparr>Vector2.x = a, Vector2.y = b\<rparr>"
  from wandering_playing [OF w] obtain g1 where g1: "wandering p g1" "\<not> gameOver g1" by blast
  from g1(1) have f: "reachable g1" "robber g1 = runner_at p" "walls g1 = the_walls"
    "rng g1 = session_rand" "coins g1 = five_coins" "score g1 = 0"
    "slowingZone g1 = None \<or> slowingZone g1 = Some session_zone"
    "door g1 = None \<or> door g1 = Some open_door" "\<not> robberEscaped g1"
    by (simp_all add: wandering_def)
  have r: "moved_robber inp g1 = runner_at ?p'"
    using f(2,3) m clear_of_walls [OF c]
  proof (rule moved_runner)
    from f(7) zone_apart [OF z, of a] show "case slowingZone g1 of None \<Rightarrow> True
        | Some z \<Rightarrow> \<not> isInside z ?p'"
      by auto
  qed
  show ?thesis
  proof (cases "CheckCollisionCircles ?p' 20 \<lparr>Vector2.x = 305, Vector2.y = 545\<rparr> 10")
    case True
    from collecting_frame [OF f(1) g1(2) f(9) f(3-6) r True]
    obtain g' where g': "reachable g'" "robber g' = runner_at ?p'"
      "walls g' = the_walls" "rng g' = session_rand" "coins g' = five_coins" "score g' = 0"
      "slowingZone g' = (if level g1 = 1 then Some session_zone else slowingZone g1)"
      "door g' = (if level g1 = 2 then Some open_door else door g1)"
      "robberEscaped g' =
         (case door g' of None \<Rightarrow> False
          | Some d \<Rightarrow> isOpen d \<and> CheckCollisionCircleRec ?p' 20 (Door.rect d))"
      by blast
    from g'(8) f(8) have dr: "door g' = None \<or> door g' = Some open_door" by auto
    with g'(9) door_apart [OF d, of b] have "\<not> robberEscaped g'" by auto
    moreover from g'(7) f(7) have "slowingZone g' = None \<or> slowingZone g' = Some session_zone"
      by auto
    ultimately have "wandering ?p' g'"
      using g'(1-6) dr by (simp add: wandering_def)
    then show ?thesis ..
  next
    case False
    let ?g' = "update_door (collected_game inp g1)"
    from quiet_frame [OF g1(2) f(9) f(5,6) r False]
    have q: "update inp g1 = Some ?g'" "coins (collected_game inp g1) = five_coins"
      "score (collected_game inp g1) = 0" .
    from f(1) q(1) have "reachable ?g'" by (rule reachable.frame)
    moreover have "\<not> robberEscaped ?g'"
      using f(8,9) door_apart [OF d, of b]
      by (auto simp: update_door_def collected_game_fields r runner_at_fields)
    ultimately have "wandering ?p' ?g'"
      using f(7,8) by (simp add: wandering_def update_door_fields collected_game_fields r q f(3,4))
    then show ?thesis ..
  qed
qed

lemma walk_in:
  "n \<le> 13 \<Longrightarrow> \<exists>g. wandering \<lparr>Vector2.x = 274 + 4.5 * real n, Vector2.y = 538.5\<rparr> g"
proof (induction n)
  case 0
  from walk_right [of 10] travelling_wandering show ?case by auto
next
  case (Suc n)
  then obtain g where g: "wandering \<lparr>Vector2.x = 274 + 4.5 * real n, Vector2.y = 538.5\<rparr> g"
    by auto
  from Suc.prems have n: "real n \<le> 12" by simp
  have m: "Character.position (Robber_move (hold KEY_D)
      (runner_at \<lparr>Vector2.x = 274 + 4.5 * real n, Vector2.y = 538.5\<rparr>)) =
      \<lparr>Vector2.x = 274 + 4.5 * real (Suc n), Vector2.y = 538.5\<rparr>"
    using n by (subst move_right) (simp_all add: field_simps)
  show ?case
  proof -
    define a where "a = 274 + 4.5 * real (Suc n)"
    have a: "278.5 \<le> a" "a \<le> 332.5" using n by (simp_all add: a_def)
    show ?thesis
      unfolding a_def [symmetric]
      by (rule wandering_step [OF g m [folded a_def]]) (use a in auto)
  qed
qed

lemma at_the_coins: "\<exists>g. wandering \<lparr>Vector2.x = 332.5, Vector2.y = 538.5\<rparr> g"
  using walk_in [of 13] by simp

text \<open>Frames with the runner at (332.5, 538.5), where it touches the coins.\<close>

lemma goal_moved:
  assumes "wandering \<lparr>Vector2.x = 332.5, Vector2.y = 538.5\<rparr> g"
  shows "moved_robber idle g = runner_at \<lparr>Vector2.x = 332.5, Vector2.y = 538.5\<rparr>"
proof -
  from assms have f: "robber g = runner_at \<lparr>Vector2.x = 332.5, Vector2.y = 538.5\<rparr>"
    "walls g = the_walls" "slowingZone g = None \<or> slowingZone g = Some session_zone"
    by (simp_all add: wandering_def)
  show ?thesis
    using f(1,2)
  proof (rule moved_runner)
    show "Character.position (Robber_move idle (runner_at \<lparr>Vector2.x = 332.5, Vector2.y = 538.5\<rparr>)) =
        \<lparr>Vector2.x = 332.5, Vector2.y = 538.5\<rparr>"
      by (simp add: idle_robber runner_at_fields)
    show "\<not> update_hitsWall (runner_at \<lparr>Vector2.x = 332.5, Vector2.y = 538.5\<rparr>) the_walls"
      by (rule clear_of_walls) simp_all
    from f(3) zone_apart [of "538.5" "332.5"] show "case slowingZone g of None \<Rightarrow> True
        | Some z \<Rightarrow> \<not> isInside z \<lparr>Vector2.x = 332.5, Vector2.y = 538.5\<rparr>"
      by auto
  qed
qed

lemma goal_touches:
  "CheckCollisionCircles \<lparr>Vector2.x = 332.5, Vector2.y = 538.5\<rparr> 20 \<lparr>Vector2.x = 305, Vector2.y = 545\<rparr> 10"
  by (simp add: CheckCollisionCircles_sq)

lemma goal_idle:
  assumes g: "wandering \<lparr>Vector2.x = 332.5, Vector2.y = 538.5\<rparr> g" and p: "\<not> gameOver g"
  shows "\<exists>g'. update idle g = Some g' \<and> wandering \<lparr>Vector2.x = 332.5, Vector2.y = 538.5\<rparr> g' \<and>
     level g' = level g + 1 \<and>
     cop g' = Cop_move (cop g) (runner_at \<lparr>Vector2.x = 332.5, Vector2.y = 538.5\<rparr>) the_walls \<and>
     slowingZone g' = (if level g = 1 then Some session_zone else slowingZone g) \<and>
     door g' = (if level g = 2 then Some open_door else door g) \<and>
     cop2 g' = (if level g = 2 then Some (new_Cop \<lparr>Vector2.x = 700, Vector2.y = 500\<rparr> copRadius PINK 3)
                else map_option (\<lambda>c2. Cop_move c2 (runner_at \<lparr>Vector2.x = 332.5, Vector2.y = 538.5\<rparr>) the_walls) (cop2 g)) \<and>
     gameOver g' = (gameOver (collected_game idle g) \<or> (level g \<noteq> 1 \<and> level g \<noteq> 2))"
proof -
  from g have f: "reachable g" "\<not> robberEscaped g" "walls g = the_walls" "rng g = session_rand"
    "coins g = five_coins" "score g = 0" "slowingZone g = None \<or> slowingZone g = Some session_zone"
    "door g = None \<or> door g = Some open_door"
    by (simp_all add: wandering_def)
  from collecting_frame [OF f(1) p f(2) f(3-6) goal_moved [OF g] goal_touches]
  obtain g' where g': "update idle g = Some g'" "reachable g'"
    "robber g' = runner_at \<lparr>Vector2.x = 332.5, Vector2.y = 538.5\<rparr>"
    "walls g' = the_walls" "rng g' = session_rand" "coins g' = five_coins" "score g' = 0"
    "level g' = level g + 1"
    "cop g' = Cop_move (cop g) (runner_at \<lparr>Vector2.x = 332.5, Vector2.y = 538.5\<rparr>) the_walls"
    "slowingZone g' = (if level g = 1 then Some session_zone else slowingZone g)"
    "door g' = (if level g = 2 then Some open_door else door g)"
    "cop2 g' = (if level g = 2 then Some (new_Cop \<lparr>Vector2.x = 700, Vector2.y = 500\<rparr> copRadius PINK 3)
                else map_option (\<lambda>c2. Cop_move c2 (runner_at \<lparr>Vector2.x = 332.5, Vector2.y = 538.5\<rparr>) the_walls) (cop2 g))"
    "gameOver g' = (gameOver (collected_game idle g) \<or> (level g \<noteq> 1 \<and> level g \<noteq> 2))"
    "robberEscaped g' =
       (case door g' of None \<Rightarrow> False
        | Some d \<Rightarrow> isOpen d \<and> CheckCollisionCircleRec \<lparr>Vector2.x = 332.5, Vector2.y = 538.5\<rparr> 20 (Door.rect d))"
    by blast
  from g'(11) f(8) have d: "door g' = None \<or> door g' = Some open_door" by auto
  with g'(14) door_apart [of "332.5" "538.5"] have e: "\<not> robberEscaped g'" by auto
  from g'(10) f(7) have z: "slowingZone g' = None \<or> slowingZone g' = Some session_zone" by auto
  from g'(2-7) d e z have "wandering \<lparr>Vector2.x = 332.5, Vector2.y = 538.5\<rparr> g'"
    by (simp add: wandering_def)
  with g'(1,8,9,10,11,12,13) show ?thesis by blast
qed

text \<open>Standing at the coins ends the game within three frames, whatever the level.\<close>

lemma goal_terminal:
  assumes g: "wandering \<lparr>Vector2.x = 332.5, Vector2.y = 538.5\<rparr> g"
  shows "\<exists>g'. wandering \<lparr>Vector2.x = 332.5, Vector2.y = 538.5\<rparr> g' \<and> gameOver g'"
proof (cases "gameOver g")
  case True
  with g show ?thesis by blast
next
  case False
  from goal_idle [OF g False] obtain g1 where g1: "wandering \<lparr>Vector2.x = 332.5, Vector2.y = 538.5\<rparr> g1"
    "level g1 = level g + 1" "gameOver g1 \<or> level g = 1 \<or> level g = 2" by auto
  show ?thesis
  proof (cases "gameOver g1")
    case True
    with g1 show ?thesis by blast
  next
    case n1: False
    from goal_idle [OF g1(1) n1] obtain g2 where g2: "wandering \<lparr>Vector2.x = 332.5, Vector2.y = 538.5\<rparr> g2"
      "level g2 = level g1 + 1" "gameOver g2 \<or> level g1 = 1 \<or> level g1 = 2" by auto
    show ?thesis
    proof (cases "gameOver g2")
      case True
      with g2 show ?thesis by blast
    next
      case n2: False
      with g1(2,3) n1 g2(2,3) have "level g2 = 3" by auto
      with goal_idle [OF g2(1) n2] show ?thesis by auto
    qed
  qed
qed

lemma goal_reset:
  assumes g: "wandering p g" and o: "gameOver g"
  shows "\<exists>g'. wandering p g' \<and> \<not> gameOver g' \<and> level g' = 1 \<and> cop2 g' = None \<and> door g' = None \<and>
     slowingZone g' = None \<and> cop g' = new_Cop \<lparr>Vector2.x = 100, Vector2.y = 100\<rparr> copRadius RED 3"
proof -
  let ?g' = "g\<lparr>score := 0, level := 1, gameOver := False, robberEscaped := False,
             cop2 := None, slowingZone := None, door := None,
             cop := new_Cop \<lparr>Vector2.x = 100, Vector2.y = 100\<rparr> copRadius RED 3,
             coins := five_coins\<rparr>"
  from g o have "update (press KEY_R) g = Some ?g'"
    by (intro reset_session) (simp_all add: wandering_def)
  with g have "reachable ?g'"
    by (auto simp: wandering_def intro: reachable.frame)
  with g have "wandering p ?g' \<and> \<not> gameOver ?g' \<and> level ?g' = 1 \<and> cop2 ?g' = None \<and> door ?g' = None \<and>
     slowingZone ?g' = None \<and> cop ?g' = new_Cop \<lparr>Vector2.x = 100, Vector2.y = 100\<rparr> copRadius RED 3"
    by (simp add: wandering_def)
  then show ?thesis by blast
qed

text \<open>After a reset the chaser starts at (100, 100) and comes down at most 3 pixels per
  frame, so for many frames it stays too far above to catch the runner.\<close>

lemma cop_after:
  assumes c: "radius c = 20" "speed c = 3" "20 \<le> Vector2.y (Character.position c)"
  shows "radius (Cop_move c target ws) = 20" "speed (Cop_move c target ws) = 3"
    "20 \<le> Vector2.y (Character.position (Cop_move c target ws))"
    "Vector2.y (Character.position (Cop_move c target ws)) \<le> Vector2.y (Character.position c) + 3"
  using Cop_move_y [of c target ws] c
  by (simp_all add: GetScreenHeight_def screenHeight_def)

lemma cop_above:
  assumes c: "radius c = 20" "speed c = 3" "20 \<le> Vector2.y (Character.position c)"
    "Vector2.y (Character.position c) \<le> 440"
  shows "\<not> CheckCollisionCircles \<lparr>Vector2.x = a, Vector2.y = 538.5\<rparr> 20
      (Character.position (Cop_move c target ws)) (real_of_int (radius (Cop_move c target ws)))"
  using cop_after [OF c(1-3), of target ws] c(4)
  by (intro circles_apart_y) simp

lemma no_catch:
  assumes g: "wandering \<lparr>Vector2.x = 332.5, Vector2.y = 538.5\<rparr> g" and p: "\<not> gameOver g"
    and c2: "cop2 g = None"
    and c: "radius (cop g) = 20" "speed (cop g) = 3"
      "20 \<le> Vector2.y (Character.position (cop g))" "Vector2.y (Character.position (cop g)) \<le> 440"
  shows "\<not> gameOver (collected_game idle g)"
proof -
  from g have w: "walls g = the_walls" by (simp add: wandering_def)
  from cop_above [OF c, of "332.5" "runner_at \<lparr>Vector2.x = 332.5, Vector2.y = 538.5\<rparr>" the_walls]
  show ?thesis
    using p c2
    by (simp add: collected_game_gameOver collected_game_more(1,2) goal_moved [OF g] w
        runner_at_fields)
qed

lemma reachable_level2_game: "wandering \<lparr>Vector2.x = 332.5, Vector2.y = 538.5\<rparr> level2_game"
proof -
  from at_the_coins obtain g0 where g0: "wandering \<lparr>Vector2.x = 332.5, Vector2.y = 538.5\<rparr> g0"
    by blast
  from goal_terminal [OF g0] obtain g2 where
    g2: "wandering \<lparr>Vector2.x = 332.5, Vector2.y = 538.5\<rparr> g2" "gameOver g2" by blast
  from goal_reset [OF g2] obtain g3 where
    g3: "wandering \<lparr>Vector2.x = 332.5, Vector2.y = 538.5\<rparr> g3" "\<not> gameOver g3" "level g3 = 1"
    "cop2 g3 = None" "door g3 = None" "slowingZone g3 = None"
    "cop g3 = new_Cop \<lparr>Vector2.x = 100, Vector2.y = 100\<rparr> copRadius RED 3"
    by blast
  have n: "\<not> gameOver (collected_game idle g3)"
    using g3(1,2,4) by (rule no_catch) (simp_all add: g3(7) new_Cop_def copRadius_def)
  from goal_idle [OF g3(1,2)] obtain g4 where
    g4: "wandering \<lparr>Vector2.x = 332.5, Vector2.y = 538.5\<rparr> g4" "level g4 = level g3 + 1"
    "cop g4 = Cop_move (cop g3) (runner_at \<lparr>Vector2.x = 332.5, Vector2.y = 538.5\<rparr>) the_walls"
    "slowingZone g4 = (if level g3 = 1 then Some session_zone else slowingZone g3)"
    "door g4 = (if level g3 = 2 then Some open_door else door g3)"
    "cop2 g4 = (if level g3 = 2 then Some (new_Cop \<lparr>Vector2.x = 700, Vector2.y = 500\<rparr> copRadius PINK 3)
                else map_option (\<lambda>c2. Cop_move c2 (runner_at \<lparr>Vector2.x = 332.5, Vector2.y = 538.5\<rparr>) the_walls) (cop2 g3))"
    "gameOver g4 = (gameOver (collected_game idle g3) \<or> (level g3 \<noteq> 1 \<and> level g3 \<noteq> 2))"
    by blast
  from g4(1) have a: "robber g4 = runner_at \<lparr>Vector2.x = 332.5, Vector2.y = 538.5\<rparr>"
    "walls g4 = the_walls" "rng g4 = session_rand" "coins g4 = five_coins" "score g4 = 0"
    "\<not> robberEscaped g4"
    by (simp_all add: wandering_def)
  have "g4 = level2_game"
    by (rule Game.equality) (simp_all add: level2_game_def a g4(2-7) g3(3-7) n)
  with g4(1) show ?thesis by simp
qed

lemma level2_game_cop:
  "radius (cop level2_game) = 20" "speed (cop level2_game) = 3"
  "20 \<le> Vector2.y (Character.position (cop level2_game))"
  "Vector2.y (Character.position (cop level2_game)) \<le> 103"
proof -
  have c: "cop level2_game = Cop_move (new_Cop \<lparr>Vector2.x = 100, Vector2.y = 100\<rparr> copRadius RED 3)
              (runner_at \<lparr>Vector2.x = 332.5, Vector2.y = 538.5\<rparr>) the_walls"
    by (simp add: level2_game_def)
  show "radius (cop level2_game) = 20" "speed (cop level2_game) = 3"
    "20 \<le> Vector2.y (Character.position (cop level2_game))"
    "Vector2.y (Character.position (cop level2_game)) \<le> 103"
    unfolding c
    using cop_after [of "new_Cop \<lparr>Vector2.x = 100, Vector2.y = 100\<rparr> copRadius RED 3"
        "runner_at \<lparr>Vector2.x = 332.5, Vector2.y = 538.5\<rparr>" the_walls]
    by (simp_all add: new_Cop_def copRadius_def)
qed

lemma reachable_level3_game:
  "wandering \<lparr>Vector2.x = 332.5, Vector2.y = 538.5\<rparr> level3_game \<and> \<not> gameOver level3_game"
proof -
  let ?g = level2_game
  have f: "\<not> gameOver ?g" "cop2 ?g = None" "level ?g = 2" "door ?g = None"
    "slowingZone ?g = Some session_zone"
    by (simp_all add: level2_game_def)
  have n: "\<not> gameOver (collected_game idle ?g)"
    using reachable_level2_game f(1,2) level2_game_cop(1-3)
    by (rule no_catch) (use level2_game_cop(4) in simp)
  from goal_idle [OF reachable_level2_game f(1)] obtain g5 where
    g5: "wandering \<lparr>Vector2.x = 332.5, Vector2.y = 538.5\<rparr> g5" "level g5 = level ?g + 1"
    "cop g5 = Cop_move (cop ?g) (runner_at \<lparr>Vector2.x = 332.5, Vector2.y = 538.5\<rparr>) the_walls"
    "slowingZone g5 = (if level ?g = 1 then Some session_zone else slowingZone ?g)"
    "door g5 = (if level ?g = 2 then Some open_door else door ?g)"
    "cop2 g5 = (if level ?g = 2 then Some (new_Cop \<lparr>Vector2.x = 700, Vector2.y = 500\<rparr> copRadius PINK 3)
                else map_option (\<lambda>c2. Cop_move c2 (runner_at \<lparr>Vector2.x = 332.5, Vector2.y = 538.5\<rparr>) the_walls) (cop2 ?g))"
    "gameOver g5 = (gameOver (collected_game idle ?g) \<or> (level ?g \<noteq> 1 \<and> level ?g \<noteq> 2))"
    by blast
  from g5(1) have a: "robber g5 = runner_at \<lparr>Vector2.x = 332.5, Vector2.y = 538.5\<rparr>"
    "walls g5 = the_walls" "rng g5 = session_rand" "coins g5 = five_coins" "score g5 = 0"
    "\<not> robberEscaped g5"
    by (simp_all add: wandering_def)
  have "g5 = level3_game"
    by (rule Game.equality) (simp_all add: level3_game_def a g5(2-7) f(3-5) n, simp_all add: level2_game_def)
  with g5(1,7) n f(3) show ?thesis by simp
qed

lemma level3_game_cop:
  "radius (cop level3_game) = 20" "speed (cop level3_game) = 3"
  "20 \<le> Vector2.y (Character.position (cop level3_game))"
  "Vector2.y (Character.position (cop level3_game)) \<le> 106"
proof -
  have c: "cop level3_game = Cop_move (cop level2_game)
      (runner_at \<lparr>Vector2.x = 332.5, Vector2.y = 538.5\<rparr>) the_walls"
    by (simp add: level3_game_def)
  show "radius (cop level3_game) = 20" "speed (cop level3_game) = 3"
    "20 \<le> Vector2.y (Character.position (cop level3_game))"
    "Vector2.y (Character.position (cop level3_game)) \<le> 106"
    unfolding c
    using cop_after [OF level2_game_cop(1-3), of "runner_at \<lparr>Vector2.x = 332.5, Vector2.y = 538.5\<rparr>" the_walls]
      level2_game_cop(4)
    by simp_all
qed

text \<open>The track of the second chaser.\<close>

text \<open>The second chaser on its track.\<close>

lemma track_sqrt: "track = sqrt 133251.25"
  by (simp add: track_def Length_def)

lemma track_sq: "track * track = 133251.25"
proof -
  have "(sqrt 133251.25)\<^sup>2 = (133251.25 :: real)"
    by (rule real_sqrt_pow2) simp
  then show ?thesis
    by (simp only: track_sqrt power2_eq_square)
qed

lemma track_bounds: "365 < track" "track < 366"
proof -
  show "365 < track" unfolding track_sqrt by (rule real_less_rsqrt) simp
  show "track < 366" unfolding track_sqrt by (rule real_less_lsqrt) simp_all
qed

lemma track_back: "Length \<lparr>Vector2.x = 363, Vector2.y = - 38.5\<rparr> = track"
  by (simp add: track_def Length_def)

lemma on_track_to_runner:
  "Subtract \<lparr>Vector2.x = 337, Vector2.y = 538.5\<rparr> (on_track t) =
     Scale \<lparr>Vector2.x = - 363, Vector2.y = 38.5\<rparr> t"
  by (simp add: on_track_def Subtract_def Scale_def)

lemma on_track_from_runner:
  "Subtract (on_track t) \<lparr>Vector2.x = 337, Vector2.y = 538.5\<rparr> =
     Scale \<lparr>Vector2.x = 363, Vector2.y = - 38.5\<rparr> t"
  by (simp add: on_track_def Subtract_def Scale_def)

lemma on_track_distance:
  "Length (Subtract (on_track t) \<lparr>Vector2.x = 337, Vector2.y = 538.5\<rparr>) = \<bar>t\<bar> * track"
  by (simp only: on_track_from_runner Length_Scale track_back)

lemma Normalize_Scale:
  assumes "0 < t" "Length v \<noteq> 0"
  shows "Normalize (Scale v t) = Scale v (1 / Length v)"
proof -
  from assms have l: "Length (Scale v t) = t * Length v" "t * Length v \<noteq> 0"
    by (simp_all add: Length_Scale)
  have "Normalize (Scale v t) = Scale (Scale v t) (1 / (t * Length v))"
    by (simp only: Normalize_def Let_def l if_True simp_thms)
  also have "\<dots> = Scale v (1 / Length v)"
    using assms by (simp add: Scale_def)
  finally show ?thesis .
qed

lemma on_track_candidate:
  assumes "0 < t"
  shows "Add (on_track t)
      (Scale (Normalize (Subtract \<lparr>Vector2.x = 337, Vector2.y = 538.5\<rparr> (on_track t))) 3) =
    on_track (t - 3 / track)"
proof -
  from track_bounds have p: "0 < track" by simp
  then have nz: "Length \<lparr>Vector2.x = - 363, Vector2.y = 38.5\<rparr> \<noteq> 0"
    by (simp add: track_def)
  have "Normalize (Subtract \<lparr>Vector2.x = 337, Vector2.y = 538.5\<rparr> (on_track t)) =
      Scale \<lparr>Vector2.x = - 363, Vector2.y = 38.5\<rparr> (1 / track)"
    by (simp only: on_track_to_runner Normalize_Scale [OF assms nz] track_def)
  then show ?thesis
    using p by (simp add: on_track_def Add_def Scale_def field_simps)
qed

lemma walls_apart:
  assumes "190 < Vector2.y p"
    and "Vector2.x p < 430 \<or> 490 < Vector2.x p \<or> 520 < Vector2.y p"
    and "Vector2.y p < 430 \<or> Vector2.x p < 230 \<or> 490 < Vector2.y p"
  shows "\<forall>w\<in>set the_walls. \<not> CheckCollisionCircleRec p 20 (Wall.rect w)"
proof -
  have 1: "\<not> CheckCollisionCircleRec p 20 \<lparr>Rectangle.x = 150, y = 150, width = 200, height = 20\<rparr>"
    using assms(1) by (intro rect_apart_y) simp_all
  have 2: "\<not> CheckCollisionCircleRec p 20 \<lparr>Rectangle.x = 450, y = 300, width = 20, height = 200\<rparr>"
    using assms(2)
  proof (elim disjE)
    assume "Vector2.x p < 430" then show ?thesis by (intro rect_apart_x) simp_all
  next
    assume "490 < Vector2.x p" then show ?thesis by (intro rect_apart_x) simp_all
  next
    assume "520 < Vector2.y p" then show ?thesis by (intro rect_apart_y) simp_all
  qed
  have 3: "\<not> CheckCollisionCircleRec p 20 \<lparr>Rectangle.x = 250, y = 450, width = 300, height = 20\<rparr>"
    using assms(3)
  proof (elim disjE)
    assume "Vector2.y p < 430" then show ?thesis by (intro rect_apart_y) simp_all
  next
    assume "Vector2.x p < 230" then show ?thesis by (intro rect_apart_x) simp_all
  next
    assume "490 < Vector2.y p" then show ?thesis by (intro rect_apart_y) simp_all
  qed
  from 1 2 3 show ?thesis by (simp add: the_walls_def new_Wall_def)
qed

lemma cop_straight:
  assumes "radius c = 20"
    and "\<forall>w\<in>set ws. \<not> CheckCollisionCircleRec (candidate c target) 20 (Wall.rect w)"
    and "inArena 20 (candidate c target)"
  shows "Character.position (Cop_move c target ws) = candidate c target"
  using assms
  by (simp add: Cop_move_position Cop_move_walls_none overlaps_def Cop_move_clamp_inArena)

lemma on_track_clear:
  assumes "0 \<le> t" "t \<le> 1"
  shows "\<forall>w\<in>set the_walls. \<not> CheckCollisionCircleRec (on_track t) 20 (Wall.rect w)"
    and "inArena 20 (on_track t)"
proof -
  show "\<forall>w\<in>set the_walls. \<not> CheckCollisionCircleRec (on_track t) 20 (Wall.rect w)"
  proof (rule walls_apart)
    show "190 < Vector2.y (on_track t)" using assms by (simp add: on_track_def)
    show "Vector2.y (on_track t) < 430 \<or> Vector2.x (on_track t) < 230 \<or> 490 < Vector2.y (on_track t)"
      using assms by (simp add: on_track_def)
    show "Vector2.x (on_track t) < 430 \<or> 490 < Vector2.x (on_track t) \<or> 520 < Vector2.y (on_track t)"
    proof (cases "t \<le> 0.45")
      case True
      then have "520 < Vector2.y (on_track t)" by (simp add: on_track_def)
      then show ?thesis by simp
    next
      case False
      then have "490 < Vector2.x (on_track t)" by (simp add: on_track_def)
      then show ?thesis by simp
    qed
  qed
  show "inArena 20 (on_track t)"
    using assms by (simp add: inArena_def on_track_def GetScreenWidth_def GetScreenHeight_def
        screenWidth_def screenHeight_def)
qed

lemma cop_on_track:
  assumes c: "Character.position c = on_track t" "radius c = 20" "speed c = 3"
    and t: "3 \<le> t * track" "t \<le> 1"
    and r: "Character.position target = \<lparr>Vector2.x = 337, Vector2.y = 538.5\<rparr>"
  shows "Character.position (Cop_move c target the_walls) = on_track (t - 3 / track)"
    and "radius (Cop_move c target the_walls) = 20" and "speed (Cop_move c target the_walls) = 3"
proof -
  from track_bounds have p: "0 < track" by simp
  have t0: "0 < t"
  proof (rule ccontr)
    assume "\<not> 0 < t"
    with p have "t * track \<le> 0" by (simp add: mult_nonpos_nonneg)
    with t(1) show False by simp
  qed
  from t(1) p have t1: "0 \<le> t - 3 / track" by (simp add: field_simps)
  from p have "0 \<le> 3 / track" by simp
  with t(2) have t2: "t - 3 / track \<le> 1" by linarith
  have k: "candidate c target = on_track (t - 3 / track)"
    by (simp only: candidate_def c r on_track_candidate [OF t0])
  show "Character.position (Cop_move c target the_walls) = on_track (t - 3 / track)"
    using c(2) on_track_clear [OF t1 t2]
    by (subst cop_straight) (simp_all add: k)
  show "radius (Cop_move c target the_walls) = 20" "speed (Cop_move c target the_walls) = 3"
    using c by (simp_all add: Cop_move_def Let_def)
qed

text \<open>One step of a chaser towards its target shortens the distance by the speed.\<close>

lemma approach:
  assumes "Length (Subtract r c) \<noteq> 0"
  shows "Length (Subtract (Add c (Scale (Normalize (Subtract r c)) s)) r) =
     \<bar>Length (Subtract r c) - s\<bar>"
proof -
  define d where "d = Subtract r c"
  define l where "l = Length d"
  from assms have l: "l \<noteq> 0" "0 \<le> l" by (simp_all add: l_def d_def Length_nonneg)
  have n: "Normalize d = Scale d (1 / l)"
    using l(1) by (simp add: Normalize_def Let_def l_def)
  have "Subtract (Add c (Scale (Scale d (1 / l)) s)) r = Scale d (s / l - 1)"
    by (simp add: d_def Subtract_def Add_def Scale_def algebra_simps)
  then have "Length (Subtract (Add c (Scale (Normalize d) s)) r) = \<bar>s / l - 1\<bar> * l"
    by (simp only: n Length_Scale l_def)
  also have "\<dots> = \<bar>(s / l - 1) * l\<bar>" using l(2) by (simp add: abs_mult)
  also have "(s / l - 1) * l = s - l" using l(1) by (simp add: field_simps)
  also have "\<bar>s - l\<bar> = \<bar>l - s\<bar>" by (rule abs_minus_commute)
  finally show ?thesis by (simp only: d_def l_def)
qed

lemma runner_clear:
  "\<not> CheckCollisionCircles \<lparr>Vector2.x = 337, Vector2.y = 538.5\<rparr> 20 \<lparr>Vector2.x = 305, Vector2.y = 545\<rparr> 10"
  by (simp add: CheckCollisionCircles_sq)

lemma chase_frame:
  assumes c: "chasing p t g"
    and m: "moved_robber inp g = runner_at \<lparr>Vector2.x = 337, Vector2.y = 538.5\<rparr>"
    and far: "43 \<le> t * track"
  shows "\<exists>g'. chasing \<lparr>Vector2.x = 337, Vector2.y = 538.5\<rparr> (t - 3 / track) g'"
proof -
  let ?R = "\<lparr>Vector2.x = 337, Vector2.y = 538.5\<rparr>"
  let ?g' = "update_door (collected_game inp g)"
  from c obtain c2 where f: "reachable g" "\<not> gameOver g" "\<not> robberEscaped g"
      "walls g = the_walls" "rng g = session_rand" "coins g = five_coins" "score g = 0"
      "level g = 3" "slowingZone g = Some session_zone" "door g = Some open_door"
    and c2: "cop2 g = Some c2" "radius c2 = 20" "speed c2 = 3" "Character.position c2 = on_track t"
    and k: "radius (cop g) = 20" "speed (cop g) = 3" "20 \<le> Vector2.y (Character.position (cop g))"
      "Vector2.y (Character.position (cop g)) + t * track \<le> 480"
    and t: "40 \<le> t * track" "t \<le> 1"
    by (auto simp: chasing_def)
  from track_bounds have p: "0 < track" by simp
  have t': "(t - 3 / track) * track = t * track - 3"
    using p by (simp add: field_simps)
  from quiet_frame [OF f(2,3) f(6,7) m runner_clear]
  have q: "update inp g = Some ?g'" "coins (collected_game inp g) = five_coins"
    "score (collected_game inp g) = 0" .
  from f(1) q(1) have r: "reachable ?g'" by (rule reachable.frame)
  from far have "3 \<le> t * track" by simp
  from cop_on_track [OF c2(4,2,3) this t(2), of "runner_at ?R"]
  have n2: "Character.position (Cop_move c2 (runner_at ?R) the_walls) = on_track (t - 3 / track)"
    "radius (Cop_move c2 (runner_at ?R) the_walls) = 20"
    "speed (Cop_move c2 (runner_at ?R) the_walls) = 3"
    by (simp_all add: runner_at_fields)
  have g2: "cop2 (collected_game inp g) = Some (Cop_move c2 (runner_at ?R) the_walls)"
    by (simp add: collected_game_more m f c2)
  have g1: "cop (collected_game inp g) = Cop_move (cop g) (runner_at ?R) the_walls"
    by (simp add: collected_game_more m f)
  from cop_after [OF k(1-3), of "runner_at ?R" the_walls]
  have n1: "radius (Cop_move (cop g) (runner_at ?R) the_walls) = 20"
    "speed (Cop_move (cop g) (runner_at ?R) the_walls) = 3"
    "20 \<le> Vector2.y (Character.position (Cop_move (cop g) (runner_at ?R) the_walls))"
    "Vector2.y (Character.position (Cop_move (cop g) (runner_at ?R) the_walls)) \<le>
       Vector2.y (Character.position (cop g)) + 3" .
  from k(4) far have "Vector2.y (Character.position (cop g)) \<le> 440" by simp
  from cop_above [OF k(1-3) this, of 337 "runner_at ?R" the_walls]
  have a1: "\<not> CheckCollisionCircles ?R 20
      (Character.position (Cop_move (cop g) (runner_at ?R) the_walls))
      (real_of_int (radius (Cop_move (cop g) (runner_at ?R) the_walls)))" .
  have "0 \<le> t - 3 / track" using far p by (simp add: field_simps)
  then have "Length (Subtract (on_track (t - 3 / track)) ?R) = t * track - 3"
    by (simp only: on_track_distance abs_of_nonneg t')
  with far have "\<not> CheckCollisionCircles ?R 20 (on_track (t - 3 / track)) 20"
    by (simp add: CheckCollisionCircles_def)
  then have a2: "\<not> CheckCollisionCircles ?R 20
      (Character.position (Cop_move c2 (runner_at ?R) the_walls))
      (real_of_int (radius (Cop_move c2 (runner_at ?R) the_walls)))"
    by (simp only: n2) simp
  have o: "\<not> gameOver (collected_game inp g)"
    using a1 a2 f(2)
    by (simp add: collected_game_gameOver g1 g2 m runner_at_fields)
  have e: "\<not> robberEscaped ?g'"
    using f(3) door_apart [of 337 "538.5"]
    by (simp add: update_door_def collected_game_fields m runner_at_fields f(10) open_door_def)
  from p have "0 \<le> 3 / track" by simp
  with t(2) have t2: "t - 3 / track \<le> 1" by linarith
  have "chasing ?R (t - 3 / track) ?g'"
    unfolding chasing_def
    using r o e q(2,3) f(4,5,8,9,10) n1 n2 k(4) far t2
    by (simp add: update_door_fields collected_game_fields m g1 g2 t')
  then show ?thesis ..
qed


lemma chasing_moved:
  assumes c: "chasing p t g"
    and m: "Character.position (Robber_move inp (runner_at p)) = \<lparr>Vector2.x = a, Vector2.y = 538.5\<rparr>"
    and a: "a < 430"
  shows "moved_robber inp g = runner_at \<lparr>Vector2.x = a, Vector2.y = 538.5\<rparr>"
proof -
  from c have f: "robber g = runner_at p" "walls g = the_walls" "slowingZone g = Some session_zone"
    by (simp_all add: chasing_def)
  show ?thesis
    using f(1,2) m
  proof (rule moved_runner)
    show "\<not> update_hitsWall (runner_at \<lparr>Vector2.x = a, Vector2.y = 538.5\<rparr>) the_walls"
      using a by (intro clear_of_walls) simp_all
    from zone_apart [of "538.5" a] show "case slowingZone g of None \<Rightarrow> True
        | Some z \<Rightarrow> \<not> isInside z \<lparr>Vector2.x = a, Vector2.y = 538.5\<rparr>"
      by (simp add: f(3))
  qed
qed

lemma chase:
  "chasing \<lparr>Vector2.x = 337, Vector2.y = 538.5\<rparr> t g \<Longrightarrow> t * track < 43 + 3 * real n \<Longrightarrow>
   \<exists>t' g'. chasing \<lparr>Vector2.x = 337, Vector2.y = 538.5\<rparr> t' g' \<and> t' * track < 43"
proof (induction n arbitrary: t g)
  case 0
  then show ?case by auto
next
  case (Suc n)
  show ?case
  proof (cases "t * track < 43")
    case True
    with Suc.prems(1) show ?thesis by blast
  next
    case False
    then have far: "43 \<le> t * track" by simp
    have "Character.position (Robber_move idle (runner_at \<lparr>Vector2.x = 337, Vector2.y = 538.5\<rparr>)) =
        \<lparr>Vector2.x = 337, Vector2.y = 538.5\<rparr>"
      by (simp add: idle_robber runner_at_fields)
    with Suc.prems(1) have m: "moved_robber idle g = runner_at \<lparr>Vector2.x = 337, Vector2.y = 538.5\<rparr>"
      by (rule chasing_moved) simp
    from chase_frame [OF Suc.prems(1) m far] obtain g' where
      g': "chasing \<lparr>Vector2.x = 337, Vector2.y = 538.5\<rparr> (t - 3 / track) g'" ..
    from track_bounds have "(t - 3 / track) * track = t * track - 3"
      by (simp add: field_simps)
    with Suc.prems(2) have "(t - 3 / track) * track < 43 + 3 * real n" by simp
    with g' show ?thesis by (rule Suc.IH)
  qed
qed

lemma chasing_level3_game: "chasing \<lparr>Vector2.x = 332.5, Vector2.y = 538.5\<rparr> 1 level3_game"
proof -
  from reachable_level3_game have r: "reachable level3_game" "\<not> gameOver level3_game"
    "\<not> robberEscaped level3_game"
    by (simp_all add: wandering_def)
  have c2: "\<exists>c2. cop2 level3_game = Some c2 \<and> radius c2 = 20 \<and> speed c2 = 3 \<and>
      Character.position c2 = on_track 1"
    by (simp add: level3_game_def new_Cop_def copRadius_def on_track_def)
  have f: "robber level3_game = runner_at \<lparr>Vector2.x = 332.5, Vector2.y = 538.5\<rparr>"
    "walls level3_game = the_walls" "rng level3_game = session_rand"
    "coins level3_game = five_coins" "score level3_game = 0" "level level3_game = 3"
    "slowingZone level3_game = Some session_zone" "door level3_game = Some open_door"
    by (simp_all add: level3_game_def level2_game_def)
  from level3_game_cop(4) track_bounds
  have k: "Vector2.y (Character.position (cop level3_game)) + 1 * track \<le> 480" "40 \<le> 1 * track"
    by simp_all
  show ?thesis
    unfolding chasing_def
    using r c2 f level3_game_cop(1-3) k by simp
qed

lemma chase_start:
  "\<exists>t g. chasing \<lparr>Vector2.x = 337, Vector2.y = 538.5\<rparr> t g \<and> t * track < 43"
proof -
  have "Character.position (Robber_move (hold KEY_D) (runner_at \<lparr>Vector2.x = 332.5, Vector2.y = 538.5\<rparr>)) =
      \<lparr>Vector2.x = 337, Vector2.y = 538.5\<rparr>"
    by (subst move_right) simp_all
  with chasing_level3_game
  have m: "moved_robber (hold KEY_D) level3_game = runner_at \<lparr>Vector2.x = 337, Vector2.y = 538.5\<rparr>"
    by (rule chasing_moved) simp
  from track_bounds have "43 \<le> 1 * track" by simp
  from chase_frame [OF chasing_level3_game m this] obtain g where
    g: "chasing \<lparr>Vector2.x = 337, Vector2.y = 538.5\<rparr> (1 - 3 / track) g" ..
  from track_bounds have "(1 - 3 / track) * track = track - 3"
    by (simp add: field_simps)
  with track_bounds have "(1 - 3 / track) * track < 43 + 3 * real (108::nat)" by simp
  with g show ?thesis by (rule chase)
qed


text \<open>The last frame of the chase: the runner steps into the door, the second chaser
  comes within 40 pixels of it.\<close>

lemma chase_final:
  assumes c: "chasing \<lparr>Vector2.x = 337, Vector2.y = 538.5\<rparr> t g" and near: "t * track < 43"
  shows "gameOver (collected_game (hold KEY_D) g)"
    and "update (hold KEY_D) g = Some (update_door (collected_game (hold KEY_D) g))"
    and "robberEscaped (update_door (collected_game (hold KEY_D) g))"
proof -
  let ?R = "\<lparr>Vector2.x = 341.5, Vector2.y = 538.5\<rparr>"
  let ?inp = "hold KEY_D"
  from c obtain c2 where f: "reachable g" "\<not> gameOver g" "\<not> robberEscaped g"
      "walls g = the_walls" "rng g = session_rand" "coins g = five_coins" "score g = 0"
      "level g = 3" "slowingZone g = Some session_zone" "door g = Some open_door"
    and c2: "cop2 g = Some c2" "radius c2 = 20" "speed c2 = 3" "Character.position c2 = on_track t"
    and t: "40 \<le> t * track" "t \<le> 1"
    by (auto simp: chasing_def)
  from track_bounds have p: "0 < track" by simp
  have t0: "0 < t"
  proof (rule ccontr)
    assume "\<not> 0 < t"
    with p have "t * track \<le> 0" by (simp add: mult_nonpos_nonneg)
    with t(1) show False by simp
  qed
  from track_bounds(1) t0 have "t * 365 < t * track" by (rule mult_strict_left_mono)
  moreover from track_bounds(2) t0 have "t * track < t * 366" by (rule mult_strict_left_mono)
  ultimately have "1 < t * 10" "t * 25 < 3" using t(1) near by linarith+
  then have tb: "0.1 < t" "t < 0.12" by simp_all
  have "Character.position (Robber_move ?inp (runner_at \<lparr>Vector2.x = 337, Vector2.y = 538.5\<rparr>)) = ?R"
    by (subst move_right) simp_all
  with c have m: "moved_robber ?inp g = runner_at ?R"
    by (rule chasing_moved) simp
  have nt: "\<not> CheckCollisionCircles ?R 20 \<lparr>Vector2.x = 305, Vector2.y = 545\<rparr> 10"
    by (simp add: CheckCollisionCircles_sq)
  from quiet_frame [OF f(2,3) f(6,7) m nt]
  show "update ?inp g = Some (update_door (collected_game ?inp g))" by simp
  show "robberEscaped (update_door (collected_game ?inp g))"
    by (simp add: update_door_def collected_game_fields m runner_at_fields f(10) open_door_def
        new_Door_def CheckCollisionCircleRec_sq)
  define d where "d = Subtract ?R (on_track t)"
  define k where "k = Add (on_track t) (Scale (Normalize d) 3)"
  have kc: "candidate c2 (runner_at ?R) = k"
    by (simp add: candidate_def c2 runner_at_fields k_def d_def)
  from Normalize_le_1 [of d] have "\<bar>Vector2.x (Normalize d) * 3\<bar> \<le> 3" "\<bar>Vector2.y (Normalize d) * 3\<bar> \<le> 3"
    by (simp_all add: abs_mult)
  with tb have kb: "370 < Vector2.x k" "Vector2.x k < 390" "525 < Vector2.y k" "Vector2.y k < 545"
    by (simp_all add: k_def Add_def Scale_def on_track_def)
  have w: "\<forall>w\<in>set the_walls.
      \<not> CheckCollisionCircleRec (candidate c2 (runner_at ?R)) 20 (Wall.rect w)"
    unfolding kc using kb by (intro walls_apart) simp_all
  have ia: "inArena 20 (candidate c2 (runner_at ?R))"
    unfolding kc
    using kb by (simp add: inArena_def GetScreenWidth_def GetScreenHeight_def screenWidth_def
        screenHeight_def)
  have "Character.position (Cop_move c2 (runner_at ?R) the_walls) = candidate c2 (runner_at ?R)"
    using c2(2) w ia by (rule cop_straight)
  then have pos: "Character.position (Cop_move c2 (runner_at ?R) the_walls) = k"
    by (simp only: kc)
  have rad: "radius (Cop_move c2 (runner_at ?R) the_walls) = 20"
    using c2(2) by (simp add: Cop_move_def Let_def)
  have dx: "Vector2.x d = 4.5 - 363 * t" "Vector2.y d = 38.5 * t"
    by (simp_all add: d_def Subtract_def on_track_def)
  from tb have "0 < \<bar>Vector2.x d\<bar>" by (simp add: dx)
  with abs_le_Length(1) [of d] have l0: "Length d \<noteq> 0" by simp
  have "(t * track) * (t * track) < 43 * 43"
    using t(1) near by (intro mult_strict_mono) simp_all
  moreover have "(t * track) * (t * track) = t * t * (track * track)" by simp
  ultimately have "t * t * (track * track) < 43 * 43" by (simp only:)
  then have "t * t * 133251.25 < 43 * 43" by (simp only: track_sq)
  then have "t * t * 133251.25 < 1849" by simp
  with tb have "(4.5 - 363 * t) * (4.5 - 363 * t) + 38.5 * t * (38.5 * t) < 43\<^sup>2"
    by (simp add: algebra_simps power2_eq_square)
  then have "Length d < 43"
    unfolding Length_def dx by (intro real_less_lsqrt) simp_all
  with Length_nonneg [of d] have "\<bar>Length d - 3\<bar> < 40" by simp
  moreover from l0 have "Length (Subtract k ?R) = \<bar>Length d - 3\<bar>"
    unfolding k_def d_def by (rule approach)
  ultimately have "Length (Subtract k ?R) < 40" by (simp only:)
  then have "CheckCollisionCircles ?R 20 k 20"
    by (simp add: CheckCollisionCircles_def)
  then have a2: "CheckCollisionCircles ?R 20
      (Character.position (Cop_move c2 (runner_at ?R) the_walls))
      (real_of_int (radius (Cop_move c2 (runner_at ?R) the_walls)))"
    by (simp only: pos rad) simp
  have g2: "cop2 (collected_game ?inp g) = Some (Cop_move c2 (runner_at ?R) the_walls)"
    by (simp add: collected_game_more m f c2)
  from a2 show "gameOver (collected_game ?inp g)"
    by (simp add: collected_game_gameOver g2 m runner_at_fields)
qed

lemma caught_in_the_door:
  "\<exists>g. reachable g \<and> \<not> gameOver g \<and> \<not> robberEscaped g \<and>
     gameOver (update_caught (update_cops (update_speed (update_robber (hold KEY_D) g)))) \<and>
     (\<exists>g'. update (hold KEY_D) g = Some g' \<and> gameOver g' \<and> robberEscaped g')"
proof -
  from chase_start obtain t g where
    g: "chasing \<lparr>Vector2.x = 337, Vector2.y = 538.5\<rparr> t g" "t * track < 43" by blast
  from g(1) have f: "reachable g" "\<not> gameOver g" "\<not> robberEscaped g"
    by (simp_all add: chasing_def)
  note e = chase_final [OF g]
  from e(1) have "gameOver (update_caught (update_cops (update_speed (update_robber (hold KEY_D) g))))"
    by (simp add: collected_game_def update_coins_fields)
  moreover from e(1) have "gameOver (update_door (collected_game (hold KEY_D) g))"
    by (simp add: update_door_fields)
  ultimately show ?thesis using f e(2,3) by blast
qed

subsection \<open>Frames of the second session\<close>





















subsection \<open>The frame after a reset near the chaser's corner\<close>






subsection \<open>Single-precision arithmetic\<close>

text \<open>Over the reals, \<open>Normalize\<close> of a vector that is not zero has length 1 exactly.\<close>

lemma Normalize_exact:
  assumes "Length v \<noteq> 0"
  shows "Normalize v = Scale v (1 / Length v)" "Length (Normalize v) = 1"
proof -
  from assms Length_nonneg [of v] have pos: "0 < Length v" by simp
  show n: "Normalize v = Scale v (1 / Length v)"
    using assms by (simp add: Normalize_def)
  show "Length (Normalize v) = 1"
    using pos by (simp add: n Length_Scale)
qed

text \<open>Rounding changes a number of the normal range by a factor between \<open>1 - 2 ^ (- 24)\<close>
  and \<open>1 + 2 ^ (- 24)\<close>.\<close>

lemma nearest_even_close: "\<bar>of_int (nearest_even r) - r\<bar> \<le> 1 / 2"
  unfolding nearest_even_def Let_def by (auto simp: abs_le_iff)

lemma quantum_eq:
  assumes "2 powr of_int e \<le> \<bar>r\<bar>" "\<bar>r\<bar> < 2 powr of_int (e + 1)"
  shows "quantum r = 2 powr of_int (max e (- 126) - 23)"
proof -
  from assms(1) have "0 < \<bar>r\<bar>" by (rule less_le_trans [rotated]) simp
  then have "\<lfloor>log 2 \<bar>r\<bar>\<rfloor> = e"
    using assms by (subst floor_log_eq_powr_iff) simp_all
  then show ?thesis by (simp add: quantum_def)
qed


lemma round_float_0: "round_float 0 = Finite 0"
  by (simp add: round_float_def)

lemma round_float_rel:
  assumes lo: "1 / 2 ^ 126 \<le> \<bar>r\<bar>" and hi: "\<bar>r\<bar> < 2 ^ 127"
  shows "\<exists>d. \<bar>d\<bar> \<le> 1 / 2 ^ 24 \<and> round_float r = Finite (r * (1 + d))"
proof -
  from lo have nz: "r \<noteq> 0" and pos: "0 < \<bar>r\<bar>" by auto
  define e where "e = \<lfloor>log 2 \<bar>r\<bar>\<rfloor>"
  from pos have b: "2 powr of_int e \<le> \<bar>r\<bar>" "\<bar>r\<bar> < 2 powr of_int (e + 1)"
    using floor_log_eq_powr_iff [of "\<bar>r\<bar>" 2 e] by (simp_all add: e_def)
  have "2 powr (- 126) \<le> \<bar>r\<bar>" using lo by (simp add: powr_minus divide_simps)
  with pos have "- 126 \<le> log 2 \<bar>r\<bar>" by (simp add: le_log_iff)
  then have e1: "- 126 \<le> e" by (simp add: e_def le_floor_iff)
  from hi have "\<bar>r\<bar> < 2 powr 127" by simp
  with pos have "log 2 \<bar>r\<bar> < 127" by (simp add: log_less_iff)
  then have e2: "e \<le> 126" by (simp add: e_def floor_less_iff [symmetric]) 
  define q where "q = quantum r"
  from e1 have q: "q = 2 powr of_int e / 2 ^ 23"
    by (simp add: q_def quantum_def e_def [symmetric] max_def powr_diff)
  have qpos: "0 < q" unfolding q by (intro divide_pos_pos) simp_all
  define n where "n = nearest_even (r / q)"
  define v where "v = of_int n * q"
  from nearest_even_close [of "r / q"] have "\<bar>of_int n - r / q\<bar> * q \<le> 1 / 2 * q"
    using qpos by (intro mult_right_mono) (simp_all add: n_def)
  also have "\<bar>of_int n - r / q\<bar> * q = \<bar>(of_int n - r / q) * q\<bar>"
    using qpos by (simp add: abs_mult)
  also have "(of_int n - r / q) * q = v - r"
    using qpos by (simp add: v_def field_simps)
  finally have c: "\<bar>v - r\<bar> \<le> q / 2" by simp
  have "q / 2 = 2 powr of_int e / 2 ^ 24" by (simp add: q)
  also have "\<dots> \<le> \<bar>r\<bar> / 2 ^ 24" using b(1) by (simp add: divide_right_mono)
  finally have qr: "q / 2 \<le> \<bar>r\<bar> / 2 ^ 24" .
  with c have cr: "\<bar>v - r\<bar> \<le> \<bar>r\<bar> / 2 ^ 24" by simp
  have "\<bar>v\<bar> \<le> \<bar>r\<bar> + \<bar>v - r\<bar>" by simp
  also have "\<dots> \<le> \<bar>r\<bar> + \<bar>r\<bar> / 2 ^ 24" using cr by simp
  also have "\<dots> \<le> 2 ^ 127 + 2 ^ 127 / 2 ^ 24" using hi by simp
  also have "\<dots> \<le> FLT_MAX" by (simp add: FLT_MAX_def)
  finally have fin: "\<not> FLT_MAX < \<bar>v\<bar>" by simp
  have rf: "round_float r = Finite v"
    using nz fin by (simp add: round_float_def Let_def v_def n_def q_def)
  define d where "d = (v - r) / r"
  have "r * (1 + d) = v" using nz by (simp add: d_def field_simps)
  moreover have "\<bar>d\<bar> \<le> 1 / 2 ^ 24"
  proof -
    have "\<bar>d\<bar> = \<bar>v - r\<bar> / \<bar>r\<bar>" by (simp add: d_def)
    also have "\<dots> \<le> (\<bar>r\<bar> / 2 ^ 24) / \<bar>r\<bar>"
      using cr pos by (intro divide_right_mono) simp_all
    also have "\<dots> = 1 / 2 ^ 24" using pos by simp
    finally show ?thesis .
  qed
  ultimately show ?thesis using rf by auto
qed

lemma round_float_factor:
  assumes "r = 0 \<or> (1 / 2 ^ 126 \<le> \<bar>r\<bar> \<and> \<bar>r\<bar> < 2 ^ 127)"
  shows "\<exists>f. 1 - 1 / 2 ^ 24 \<le> f \<and> f \<le> 1 + 1 / 2 ^ 24 \<and> round_float r = Finite (r * f)"
proof (cases "r = 0")
  case True
  then have "round_float r = Finite (r * 1)" by (simp add: round_float_0)
  then show ?thesis by (intro exI [of _ 1]) simp
next
  case False
  with assms round_float_rel [of r] obtain d where
    d: "\<bar>d\<bar> \<le> 1 / 2 ^ 24" "round_float r = Finite (r * (1 + d))" by blast
  from d(1) have "1 - 1 / 2 ^ 24 \<le> 1 + d" "1 + d \<le> 1 + 1 / 2 ^ 24" by (simp_all add: abs_le_iff)
  with d(2) show ?thesis by blast
qed

lemma scale_bounds:
  fixes lo hi m M f v :: real
  assumes "lo \<le> v" "v \<le> hi" "0 \<le> lo" "m \<le> f" "f \<le> M" "0 \<le> m"
  shows "lo * m \<le> v * f" "v * f \<le> hi * M"
  using assms by (auto intro!: mult_mono)

lemma moderate_square:
  assumes "moderate a"
  shows "a * a = 0 \<or> (1 / 2 ^ 126 \<le> \<bar>a * a\<bar> \<and> \<bar>a * a\<bar> < 2 ^ 127)"
proof (cases "a = 0")
  case True then show ?thesis by simp
next
  case False
  with assms have b: "1 / 2 ^ 60 \<le> \<bar>a\<bar>" "\<bar>a\<bar> \<le> 2 ^ 60" by (simp_all add: moderate_def)
  have "1 / 2 ^ 60 * (1 / 2 ^ 60) \<le> \<bar>a\<bar> * \<bar>a\<bar>" using b(1) by (intro mult_mono) simp_all
  moreover have "\<bar>a\<bar> * \<bar>a\<bar> \<le> 2 ^ 60 * 2 ^ 60" using b(2) by (intro mult_mono) simp_all
  ultimately show ?thesis by (simp add: abs_mult)
qed

lemma moderate_square_bounds:
  assumes "moderate a" "a \<noteq> 0"
  shows "1 / 2 ^ 120 \<le> a * a" "a * a \<le> 2 ^ 120"
proof -
  from assms have b: "1 / 2 ^ 60 \<le> \<bar>a\<bar>" "\<bar>a\<bar> \<le> 2 ^ 60" by (simp_all add: moderate_def)
  have "1 / 2 ^ 60 * (1 / 2 ^ 60) \<le> \<bar>a\<bar> * \<bar>a\<bar>" using b(1) by (intro mult_mono) simp_all
  then show "1 / 2 ^ 120 \<le> a * a" by simp
  have "\<bar>a\<bar> * \<bar>a\<bar> \<le> 2 ^ 60 * 2 ^ 60" using b(2) by (intro mult_mono) simp_all
  then show "a * a \<le> 2 ^ 120" by simp
qed

lemma moderate_sum_bounds:
  assumes "moderate a" "moderate b" "a \<noteq> 0 \<or> b \<noteq> 0"
  shows "1 / 2 ^ 120 \<le> a * a + b * b" "a * a + b * b \<le> 2 ^ 121"
proof -
  have ub: "c * c \<le> 2 ^ 120" if "moderate c" for c :: real
    using that moderate_square_bounds(2) [of c] by (cases "c = 0") simp_all
  from ub [OF assms(1)] ub [OF assms(2)] show "a * a + b * b \<le> 2 ^ 121" by simp
  from assms(3) show "1 / 2 ^ 120 \<le> a * a + b * b"
  proof
    assume "a \<noteq> 0"
    from moderate_square_bounds(1) [OF assms(1) this] have "1 / 2 ^ 120 \<le> a * a" .
    moreover have "0 \<le> b * b" by simp
    ultimately show ?thesis by linarith
  next
    assume "b \<noteq> 0"
    from moderate_square_bounds(1) [OF assms(2) this] have "1 / 2 ^ 120 \<le> b * b" .
    moreover have "0 \<le> a * a" by simp
    ultimately show ?thesis by linarith
  qed
qed


lemma sqrt_scaled:
  fixes L2 m :: real
  assumes "0 \<le> m"
  shows "sqrt (L2 * (m * m)) = sqrt L2 * m"
  using assms by (simp add: real_sqrt_mult)

lemma Length_float_bounds:
  assumes ab: "moderate a" "moderate b" "a \<noteq> 0 \<or> b \<noteq> 0"
  defines "L \<equiv> sqrt (a * a + b * b)"
  defines "m \<equiv> 1 - 1 / 2 ^ 24" and "M \<equiv> 1 + 1 / 2 ^ 24"
  shows "\<exists>l. Length_float \<lparr>Vector2_float.x = Finite a, Vector2_float.y = Finite b\<rparr> = Finite l \<and>
           L * (m * m) \<le> l \<and> l \<le> L * (M * M)"
    and "1 / 2 ^ 60 \<le> L" and "L \<le> 2 ^ 61"
proof -
  have mM: "1 / 2 \<le> m" "m \<le> 1" "1 \<le> M" "M \<le> 2" "0 \<le> m"
    by (simp_all add: m_def M_def)
  define L2 where "L2 = a * a + b * b"
  note s = moderate_sum_bounds [OF ab, folded L2_def]
  have L: "L = sqrt L2" by (simp add: L_def L2_def)
  have "(1 / 2 ^ 60)\<^sup>2 \<le> L2" using s(1) by (simp add: power2_eq_square)
  then show L1: "1 / 2 ^ 60 \<le> L" unfolding L by (rule real_le_rsqrt)
  have "L2 \<le> (2 ^ 61)\<^sup>2" using s(2) by (simp add: power2_eq_square)
  then show L3: "L \<le> 2 ^ 61" unfolding L by (intro real_le_lsqrt) simp_all
  from round_float_factor [OF moderate_square [OF ab(1)]] obtain f1 where
    f1: "m \<le> f1" "f1 \<le> M" "round_float (a * a) = Finite (a * a * f1)"
    unfolding m_def M_def by blast
  from round_float_factor [OF moderate_square [OF ab(2)]] obtain f2 where
    f2: "m \<le> f2" "f2 \<le> M" "round_float (b * b) = Finite (b * b * f2)"
    unfolding m_def M_def by blast
  define S0 where "S0 = a * a * f1 + b * b * f2"
  have "a * a * m \<le> a * a * f1" "b * b * m \<le> b * b * f2"
    using f1(1) f2(1) by (simp_all add: mult_left_mono)
  then have S0l: "L2 * m \<le> S0" by (simp add: S0_def L2_def algebra_simps)
  have "a * a * f1 \<le> a * a * M" "b * b * f2 \<le> b * b * M"
    using f1(2) f2(2) by (simp_all add: mult_left_mono)
  then have S0u: "S0 \<le> L2 * M" by (simp add: S0_def L2_def algebra_simps)
  have "1 / 2 ^ 120 * (1 / 2) \<le> L2 * m" using s(1) mM(1) by (intro mult_mono) simp_all
  with S0l have S0p: "1 / 2 ^ 121 \<le> S0" by simp
  then have S0a: "\<bar>S0\<bar> = S0" by simp
  from S0p have r1: "1 / 2 ^ 126 \<le> \<bar>S0\<bar>" unfolding S0a by simp
  have "L2 * M \<le> 2 ^ 121 * 2" using s(2) mM(3,4) s(1) by (intro mult_mono) simp_all
  with S0u have r2: "\<bar>S0\<bar> < 2 ^ 127" unfolding S0a by simp
  from round_float_factor [of S0] r1 r2 obtain f3 where
    f3: "m \<le> f3" "f3 \<le> M" "round_float S0 = Finite (S0 * f3)"
    unfolding m_def M_def by blast
  define S where "S = S0 * f3"
  have L2m: "0 \<le> L2 * m" using s(1) mM(5) by simp
  from scale_bounds [OF S0l S0u L2m f3(1,2) mM(5)]
  have Sb: "L2 * (m * m) \<le> S" "S \<le> L2 * (M * M)" by (simp_all add: S_def mult.assoc)
  have "0 \<le> L2 * (m * m)" using s(1) by simp
  with Sb(1) have S0: "0 \<le> S" by simp
  have q1: "L * m \<le> sqrt S"
    using real_sqrt_le_mono [OF Sb(1)] mM(5) by (simp add: sqrt_scaled L)
  have q2: "sqrt S \<le> L * M"
    using real_sqrt_le_mono [OF Sb(2)] mM(3) by (simp add: sqrt_scaled L)
  have "1 / 2 ^ 60 * (1 / 2) \<le> L * m" using L1 mM(1) by (intro mult_mono) simp_all
  with q1 have qp: "1 / 2 ^ 61 \<le> sqrt S" by simp
  have qa: "\<bar>sqrt S\<bar> = sqrt S" using S0 by simp
  from qp have r3: "1 / 2 ^ 126 \<le> \<bar>sqrt S\<bar>" unfolding qa by simp
  have "L * M \<le> 2 ^ 61 * 2" using L3 mM(3,4) L1 by (intro mult_mono) simp_all
  with q2 have r4: "\<bar>sqrt S\<bar> < 2 ^ 127" unfolding qa by simp
  from round_float_factor [of "sqrt S"] r3 r4 obtain f4 where
    f4: "m \<le> f4" "f4 \<le> M" "round_float (sqrt S) = Finite (sqrt S * f4)"
    unfolding m_def M_def by blast
  have Lm: "0 \<le> L * m" using L1 mM(5) by simp
  from scale_bounds [OF q1 q2 Lm f4(1,2) mM(5)]
  have lb: "L * (m * m) \<le> sqrt S * f4" "sqrt S * f4 \<le> L * (M * M)" by (simp_all add: mult.assoc)
  have "Length_float \<lparr>Vector2_float.x = Finite a, Vector2_float.y = Finite b\<rparr> = Finite (sqrt S * f4)"
    using S0 by (simp add: Length_float_def f1(3) f2(3) S0_def [symmetric] f3(3) S_def [symmetric] f4(3))
  with lb show "\<exists>l. Length_float \<lparr>Vector2_float.x = Finite a, Vector2_float.y = Finite b\<rparr> = Finite l \<and>
           L * (m * m) \<le> l \<and> l \<le> L * (M * M)"
    by blast
qed

text \<open>\<open>Normalize\<close> in single precision multiplies each component by a factor that differs
  from \<open>1 / L\<close>, \<open>L\<close> the exact length, by five roundings.\<close>

lemma moderate_product:
  assumes "moderate a" and c: "1 / 2 ^ 64 \<le> c" "c \<le> 2 ^ 63"
  shows "a * c = 0 \<or> (1 / 2 ^ 126 \<le> \<bar>a * c\<bar> \<and> \<bar>a * c\<bar> < 2 ^ 127)"
proof (cases "a = 0")
  case True then show ?thesis by simp
next
  case False
  with assms have b: "1 / 2 ^ 60 \<le> \<bar>a\<bar>" "\<bar>a\<bar> \<le> 2 ^ 60" by (simp_all add: moderate_def)
  from c have ca: "\<bar>c\<bar> = c" by simp
  have "1 / 2 ^ 60 * (1 / 2 ^ 64) \<le> \<bar>a\<bar> * c" using b(1) c(1) by (intro mult_mono) simp_all
  moreover have "\<bar>a\<bar> * c \<le> 2 ^ 60 * 2 ^ 63" using b(2) c by (intro mult_mono) simp_all
  ultimately show ?thesis by (simp add: abs_mult ca)
qed

lemma Normalize_float_factors:
  assumes ab: "moderate a" "moderate b" "a \<noteq> 0 \<or> b \<noteq> 0"
  defines "L \<equiv> sqrt (a * a + b * b)"
  defines "m \<equiv> 1 - 1 / 2 ^ 24" and "M \<equiv> 1 + 1 / 2 ^ 24"
  shows "\<exists>k1 k2. Normalize_float \<lparr>Vector2_float.x = Finite a, Vector2_float.y = Finite b\<rparr> =
             \<lparr>Vector2_float.x = Finite (a * k1), Vector2_float.y = Finite (b * k2)\<rparr> \<and>
           1 / (L * (M * M)) * (m * m) \<le> k1 \<and> k1 \<le> 1 / (L * (m * m)) * (M * M) \<and>
           1 / (L * (M * M)) * (m * m) \<le> k2 \<and> k2 \<le> 1 / (L * (m * m)) * (M * M)"
proof -
  have mM: "1 / 2 \<le> m" "m \<le> 1" "1 \<le> M" "M \<le> 2" "0 \<le> m" "0 < m" "0 < M"
    by (simp_all add: m_def M_def)
  let ?v = "\<lparr>Vector2_float.x = Finite a, Vector2_float.y = Finite b\<rparr>"
  from Length_float_bounds [OF ab] obtain l where
    l: "Length_float ?v = Finite l" "L * (m * m) \<le> l" "l \<le> L * (M * M)"
    and L: "1 / 2 ^ 60 \<le> L" "L \<le> 2 ^ 61"
    unfolding L_def m_def M_def by blast
  from L(1) have Lp: "0 < L" by (rule less_le_trans [rotated]) simp
  have mm: "1 / 2 * (1 / 2) \<le> m * m" using mM by (intro mult_mono) simp_all
  have MM: "M * M \<le> 2 * 2" using mM by (intro mult_mono) simp_all
  have mmp: "0 < m * m" "0 < M * M" using mM by simp_all
  have "1 / 2 ^ 60 * (1 / 2 * (1 / 2)) \<le> L * (m * m)"
    by (rule mult_mono) (use L(1) mm Lp in simp_all)
  with l(2) have l1: "1 / 2 ^ 62 \<le> l" by simp
  then have lp: "0 < l" by (rule less_le_trans [rotated]) simp
  have "L * (M * M) \<le> 2 ^ 61 * (2 * 2)"
    by (rule mult_mono) (use L MM Lp mmp in simp_all)
  with l(3) have l2: "l \<le> 2 ^ 63" by simp
  define i where "i = 1 / l"
  have i1: "1 / 2 ^ 63 \<le> i" using l2 lp by (simp add: i_def field_simps)
  have i2: "i \<le> 2 ^ 62" using l1 lp by (simp add: i_def field_simps)
  from i1 have ip: "0 \<le> i" by (rule order_trans [rotated]) simp
  then have ia: "\<bar>i\<bar> = i" by simp
  from i1 have r1: "1 / 2 ^ 126 \<le> \<bar>i\<bar>" unfolding ia by (rule order_trans [rotated]) simp
  from i2 have r2: "\<bar>i\<bar> < 2 ^ 127" unfolding ia by (rule le_less_trans) simp
  from round_float_factor [of i] r1 r2 obtain f5 where
    f5: "m \<le> f5" "f5 \<le> M" "round_float i = Finite (i * f5)"
    unfolding m_def M_def by blast
  define c where "c = i * f5"
  have j1: "1 / (L * (M * M)) \<le> i"
    unfolding i_def using l(3) lp by (intro divide_left_mono) simp_all
  have j2: "i \<le> 1 / (L * (m * m))"
    unfolding i_def using l(2) Lp mmp lp by (intro divide_left_mono) simp_all
  have j0: "0 \<le> 1 / (L * (M * M))" using Lp mmp by simp
  from scale_bounds [OF j1 j2 j0 f5(1,2) mM(5)]
  have cb: "1 / (L * (M * M)) * m \<le> c" "c \<le> 1 / (L * (m * m)) * M" by (simp_all add: c_def)
  have "1 / 2 ^ 63 * (1 / 2) \<le> i * f5"
    by (rule mult_mono) (use i1 f5(1) mM(1) ip in simp_all)
  then have c1: "1 / 2 ^ 64 \<le> c" by (simp add: c_def)
  have f5p: "0 \<le> f5" using f5(1) mM(5) by simp
  have "i * f5 \<le> 2 ^ 62 * 2"
    by (rule mult_mono) (use i2 f5(2) mM(4) f5p in simp_all)
  then have c2: "c \<le> 2 ^ 63" by (simp add: c_def)
  have inv: "float_divide (Finite 1) (Length_float ?v) = Finite c"
    using lp by (simp add: l(1) f5(3) [unfolded i_def] c_def i_def)
  have ne: "float_neq (Length_float ?v) (Finite 0)"
    using lp by (simp add: l(1))
  have c0: "0 \<le> 1 / (L * (M * M)) * m" using j0 mM(5) by simp
  from round_float_factor [OF moderate_product [OF ab(1) c1 c2]] obtain f6 where
    f6: "m \<le> f6" "f6 \<le> M" "round_float (a * c) = Finite (a * c * f6)"
    unfolding m_def M_def by blast
  from round_float_factor [OF moderate_product [OF ab(2) c1 c2]] obtain f7 where
    f7: "m \<le> f7" "f7 \<le> M" "round_float (b * c) = Finite (b * c * f7)"
    unfolding m_def M_def by blast
  from scale_bounds [OF cb c0 f6(1,2) mM(5)]
  have k1: "1 / (L * (M * M)) * (m * m) \<le> c * f6" "c * f6 \<le> 1 / (L * (m * m)) * (M * M)"
    by (simp_all add: mult.assoc)
  from scale_bounds [OF cb c0 f7(1,2) mM(5)]
  have k2: "1 / (L * (M * M)) * (m * m) \<le> c * f7" "c * f7 \<le> 1 / (L * (m * m)) * (M * M)"
    by (simp_all add: mult.assoc)
  have "Normalize_float ?v =
      \<lparr>Vector2_float.x = Finite (a * (c * f6)), Vector2_float.y = Finite (b * (c * f7))\<rparr>"
    using ne by (simp add: Normalize_float_def Let_def inv Scale_float_def f6(3) f7(3) mult.assoc)
  with k1 k2 show ?thesis by blast
qed

lemma factor_close:
  fixes L k :: real
  assumes L: "0 < L"
    and k: "1 / (L * ((1 + 1 / 2 ^ 24) * (1 + 1 / 2 ^ 24))) * ((1 - 1 / 2 ^ 24) * (1 - 1 / 2 ^ 24)) \<le> k"
      "k \<le> 1 / (L * ((1 - 1 / 2 ^ 24) * (1 - 1 / 2 ^ 24))) * ((1 + 1 / 2 ^ 24) * (1 + 1 / 2 ^ 24))"
  shows "1 - 1 / 2 ^ 21 \<le> k * L" "k * L \<le> 1 + 1 / 2 ^ 21"
proof -
  from k(1) L have "1 / (L * ((1 + 1 / 2 ^ 24) * (1 + 1 / 2 ^ 24))) * ((1 - 1 / 2 ^ 24) * (1 - 1 / 2 ^ 24)) * L \<le> k * L"
    by (intro mult_right_mono) simp_all
  moreover have "1 / (L * ((1 + 1 / 2 ^ 24) * (1 + 1 / 2 ^ 24))) * ((1 - 1 / 2 ^ 24) * (1 - 1 / 2 ^ 24)) * L =
      ((1 - 1 / 2 ^ 24) * (1 - 1 / 2 ^ 24)) / ((1 + 1 / 2 ^ 24) * (1 + 1 / 2 ^ 24))"
    using L by simp
  moreover have "(1::real) - 1 / 2 ^ 21 \<le> ((1 - 1 / 2 ^ 24) * (1 - 1 / 2 ^ 24)) / ((1 + 1 / 2 ^ 24) * (1 + 1 / 2 ^ 24))"
    by simp
  ultimately show "1 - 1 / 2 ^ 21 \<le> k * L" by linarith
  from k(2) L have "k * L \<le> 1 / (L * ((1 - 1 / 2 ^ 24) * (1 - 1 / 2 ^ 24))) * ((1 + 1 / 2 ^ 24) * (1 + 1 / 2 ^ 24)) * L"
    by (intro mult_right_mono) simp_all
  moreover have "1 / (L * ((1 - 1 / 2 ^ 24) * (1 - 1 / 2 ^ 24))) * ((1 + 1 / 2 ^ 24) * (1 + 1 / 2 ^ 24)) * L =
      ((1 + 1 / 2 ^ 24) * (1 + 1 / 2 ^ 24)) / ((1 - 1 / 2 ^ 24) * (1 - 1 / 2 ^ 24))"
    using L by simp
  moreover have "((1 + 1 / 2 ^ 24) * (1 + 1 / 2 ^ 24)) / ((1 - 1 / 2 ^ 24) * (1 - 1 / 2 ^ 24)) \<le> (1::real) + 1 / 2 ^ 21"
    by simp
  ultimately show "k * L \<le> 1 + 1 / 2 ^ 21" by linarith
qed

lemma component_close:
  fixes a k L e :: real
  assumes "0 < L" "1 - e \<le> k * L" "k * L \<le> 1 + e"
  shows "\<bar>a * k - a / L\<bar> \<le> e * \<bar>a / L\<bar>"
proof -
  have "a * k - a / L = a / L * (k * L - 1)" using assms(1) by (simp add: field_simps)
  then have "\<bar>a * k - a / L\<bar> = \<bar>a / L\<bar> * \<bar>k * L - 1\<bar>" by (simp add: abs_mult)
  also have "\<dots> \<le> \<bar>a / L\<bar> * e"
    using assms(2,3) by (intro mult_left_mono) (simp_all add: abs_le_iff)
  finally show ?thesis by (simp add: mult.commute)
qed

lemma square_between:
  fixes p lo hi :: real
  assumes "0 \<le> lo" "lo \<le> p" "p \<le> hi"
  shows "lo * lo \<le> p * p" "p * p \<le> hi * hi"
  using assms by (auto intro!: mult_mono)

lemma norm_close:
  fixes a b k1 k2 e :: real
  assumes nz: "0 < a * a + b * b" and e: "0 \<le> e" "e \<le> 1"
    and k1: "1 - e \<le> k1 * sqrt (a * a + b * b)" "k1 * sqrt (a * a + b * b) \<le> 1 + e"
    and k2: "1 - e \<le> k2 * sqrt (a * a + b * b)" "k2 * sqrt (a * a + b * b) \<le> 1 + e"
  shows "\<bar>sqrt (a * k1 * (a * k1) + b * k2 * (b * k2)) - 1\<bar> \<le> e"
proof -
  define L where "L = sqrt (a * a + b * b)"
  from nz have Lp: "0 < L" by (simp add: L_def)
  have LL: "L * L = a * a + b * b" using nz by (simp add: L_def)
  define p where "p = k1 * L"
  define q where "q = k2 * L"
  have e0: "0 \<le> 1 - e" using e by simp
  note pb = square_between [OF e0 k1 [folded L_def p_def]]
  note qb = square_between [OF e0 k2 [folded L_def q_def]]
  define N where "N = a * k1 * (a * k1) + b * k2 * (b * k2)"
  have N: "N * (L * L) = a * a * (p * p) + b * b * (q * q)"
    by (simp add: N_def p_def q_def algebra_simps)
  have "(1 - e) * (1 - e) * (L * L) = a * a * ((1 - e) * (1 - e)) + b * b * ((1 - e) * (1 - e))"
    unfolding LL by algebra
  also have "\<dots> \<le> a * a * (p * p) + b * b * (q * q)"
    using pb(1) qb(1) by (intro add_mono mult_left_mono) simp_all
  also have "\<dots> = N * (L * L)" by (simp only: N)
  finally have lo: "(1 - e) * (1 - e) \<le> N" using Lp by simp
  have "N * (L * L) = a * a * (p * p) + b * b * (q * q)" by (simp only: N)
  also have "\<dots> \<le> a * a * ((1 + e) * (1 + e)) + b * b * ((1 + e) * (1 + e))"
    using pb(2) qb(2) by (intro add_mono mult_left_mono) simp_all
  also have "\<dots> = (1 + e) * (1 + e) * (L * L)"
    unfolding LL by algebra
  finally have hi: "N \<le> (1 + e) * (1 + e)" using Lp by simp
  from real_sqrt_le_mono [OF lo] e0 have "1 - e \<le> sqrt N" by simp
  moreover from real_sqrt_le_mono [OF hi] e have "sqrt N \<le> 1 + e" by simp
  ultimately show ?thesis unfolding N_def by (simp add: abs_le_iff)
qed


text \<open>Evaluation at given numbers.\<close>

lemma round_float_eval:
  assumes "2 powr of_int e \<le> \<bar>r\<bar>" "\<bar>r\<bar> < 2 powr of_int (e + 1)"
  shows "round_float r =
     (if FLT_MAX < \<bar>of_int (nearest_even (r / 2 powr of_int (max e (- 126) - 23))) *
           2 powr of_int (max e (- 126) - 23)\<bar>
      then Infinity (0 < r)
      else Finite (of_int (nearest_even (r / 2 powr of_int (max e (- 126) - 23))) *
           2 powr of_int (max e (- 126) - 23)))"
proof -
  from assms(1) have "0 < \<bar>r\<bar>" by (rule less_le_trans [rotated]) simp
  then have "r \<noteq> 0" by simp
  then show ?thesis
    by (simp add: round_float_def quantum_eq [OF assms] Let_def)
qed

lemma nearest_even_int: "nearest_even (of_int n) = n"
  by (simp add: nearest_even_def)

lemma overflow_square: "round_float (2 ^ 65 * 2 ^ 65) = Infinity True"
proof -
  have "round_float (2 ^ 130) = Infinity True"
    using nearest_even_int [of "2 ^ 23"]
    by (subst round_float_eval [of 130]) (simp_all add: FLT_MAX_def)
  then show ?thesis by simp
qed



lemma round_9: "round_float 9 = Finite 9"
  by (subst round_float_eval [of 3]) (simp_all add: nearest_even_def FLT_MAX_def powr_minus)

lemma round_16: "round_float 16 = Finite 16"
  by (subst round_float_eval [of 4]) (simp_all add: nearest_even_def FLT_MAX_def powr_minus)

lemma round_25: "round_float 25 = Finite 25"
  by (subst round_float_eval [of 4]) (simp_all add: nearest_even_def FLT_MAX_def powr_minus)

lemma round_5: "round_float 5 = Finite 5"
  by (subst round_float_eval [of 2]) (simp_all add: nearest_even_def FLT_MAX_def powr_minus)

lemma round_fifth: "round_float (1 / 5) = Finite (13421773 / 2 ^ 26)"
  by (subst round_float_eval [of "- 3"]) (simp_all add: nearest_even_def FLT_MAX_def powr_minus)

lemma round_three_fifths: "round_float (3 * (13421773 / 2 ^ 26)) = Finite (10066330 / 2 ^ 24)"
  by (subst round_float_eval [of "- 1"]) (simp_all add: nearest_even_def FLT_MAX_def powr_minus)

lemma round_four_fifths: "round_float (4 * (13421773 / 2 ^ 26)) = Finite (13421773 / 2 ^ 24)"
  by (subst round_float_eval [of "- 1"]) (simp_all add: nearest_even_def FLT_MAX_def powr_minus)

lemma sqrt_25: "sqrt 25 = 5"
  by (rule real_sqrt_unique) simp_all

lemma Normalize_float_3_4:
  "Normalize_float \<lparr>Vector2_float.x = Finite 3, Vector2_float.y = Finite 4\<rparr> =
     \<lparr>Vector2_float.x = Finite (10066330 / 2 ^ 24), Vector2_float.y = Finite (13421773 / 2 ^ 24)\<rparr>"
proof -
  have l: "Length_float \<lparr>Vector2_float.x = Finite 3, Vector2_float.y = Finite 4\<rparr> = Finite 5"
    by (simp add: Length_float_def round_9 round_16 round_25 sqrt_25 round_5)
  have i: "float_divide (Finite 1) (Finite 5) = Finite (13421773 / 2 ^ 26)"
    using round_fifth by simp
  show ?thesis
    unfolding Normalize_float_def Let_def l i Scale_float_def
    using round_three_fifths round_four_fifths by simp
qed


text \<open>The computed vector against the exact one.\<close>

lemma Normalize_float_close:
  "Normalize_float \<lparr>Vector2_float.x = Finite 0, Vector2_float.y = Finite 0\<rparr> =
     \<lparr>Vector2_float.x = Finite 0, Vector2_float.y = Finite 0\<rparr> \<and>
   (moderate a \<and> moderate b \<and> (a \<noteq> 0 \<or> b \<noteq> 0) \<longrightarrow>
      (\<exists>a' b'. Normalize_float \<lparr>Vector2_float.x = Finite a, Vector2_float.y = Finite b\<rparr> =
                 \<lparr>Vector2_float.x = Finite a', Vector2_float.y = Finite b'\<rparr> \<and>
         \<bar>sqrt (a' * a' + b' * b') - 1\<bar> \<le> 1 / 2 ^ 21 \<and>
         \<bar>a' - a / sqrt (a * a + b * b)\<bar> \<le> 1 / 2 ^ 21 * \<bar>a / sqrt (a * a + b * b)\<bar> \<and>
         \<bar>b' - b / sqrt (a * a + b * b)\<bar> \<le> 1 / 2 ^ 21 * \<bar>b / sqrt (a * a + b * b)\<bar>))"
proof (intro conjI impI)
  show "Normalize_float \<lparr>Vector2_float.x = Finite 0, Vector2_float.y = Finite 0\<rparr> =
     \<lparr>Vector2_float.x = Finite 0, Vector2_float.y = Finite 0\<rparr>"
    by (simp add: Normalize_float_def Length_float_def round_float_0 Let_def)
next
  assume h: "moderate a \<and> moderate b \<and> (a \<noteq> 0 \<or> b \<noteq> 0)"
  then have ab: "moderate a" "moderate b" "a \<noteq> 0 \<or> b \<noteq> 0" by simp_all
  define L where "L = sqrt (a * a + b * b)"
  from moderate_sum_bounds(1) [OF ab] have nz: "0 < a * a + b * b"
    by (rule less_le_trans [rotated]) simp
  then have Lp: "0 < L" by (simp add: L_def)
  from Normalize_float_factors [OF ab, folded L_def] obtain k1 k2 where
    n: "Normalize_float \<lparr>Vector2_float.x = Finite a, Vector2_float.y = Finite b\<rparr> =
         \<lparr>Vector2_float.x = Finite (a * k1), Vector2_float.y = Finite (b * k2)\<rparr>"
    and k1: "1 / (L * ((1 + 1 / 2 ^ 24) * (1 + 1 / 2 ^ 24))) * ((1 - 1 / 2 ^ 24) * (1 - 1 / 2 ^ 24)) \<le> k1"
      "k1 \<le> 1 / (L * ((1 - 1 / 2 ^ 24) * (1 - 1 / 2 ^ 24))) * ((1 + 1 / 2 ^ 24) * (1 + 1 / 2 ^ 24))"
    and k2: "1 / (L * ((1 + 1 / 2 ^ 24) * (1 + 1 / 2 ^ 24))) * ((1 - 1 / 2 ^ 24) * (1 - 1 / 2 ^ 24)) \<le> k2"
      "k2 \<le> 1 / (L * ((1 - 1 / 2 ^ 24) * (1 - 1 / 2 ^ 24))) * ((1 + 1 / 2 ^ 24) * (1 + 1 / 2 ^ 24))"
    by blast
  note c1 = factor_close [OF Lp k1]
  note c2 = factor_close [OF Lp k2]
  have "\<bar>sqrt (a * k1 * (a * k1) + b * k2 * (b * k2)) - 1\<bar> \<le> 1 / 2 ^ 21"
    by (rule norm_close [OF nz _ _ c1 [unfolded L_def] c2 [unfolded L_def]]) simp_all
  moreover have "\<bar>a * k1 - a / L\<bar> \<le> 1 / 2 ^ 21 * \<bar>a / L\<bar>"
    by (rule component_close [OF Lp c1])
  moreover have "\<bar>b * k2 - b / L\<bar> \<le> 1 / 2 ^ 21 * \<bar>b / L\<bar>"
    by (rule component_close [OF Lp c2])
  ultimately show "\<exists>a' b'. Normalize_float \<lparr>Vector2_float.x = Finite a, Vector2_float.y = Finite b\<rparr> =
                 \<lparr>Vector2_float.x = Finite a', Vector2_float.y = Finite b'\<rparr> \<and>
         \<bar>sqrt (a' * a' + b' * b') - 1\<bar> \<le> 1 / 2 ^ 21 \<and>
         \<bar>a' - a / sqrt (a * a + b * b)\<bar> \<le> 1 / 2 ^ 21 * \<bar>a / sqrt (a * a + b * b)\<bar> \<and>
         \<bar>b' - b / sqrt (a * a + b * b)\<bar> \<le> 1 / 2 ^ 21 * \<bar>b / sqrt (a * a + b * b)\<bar>"
    using n unfolding L_def by blast
qed

lemma underflow_square: "round_float (1 / 2 ^ 80 * (1 / 2 ^ 80)) = Finite 0"
proof -
  have "round_float (1 / 2 ^ 160) = Finite 0"
    by (subst round_float_eval [of "- 160"]) (simp_all add: nearest_even_def FLT_MAX_def powr_minus)
  then show ?thesis by simp
qed

lemma round_huge: "round_float (2 ^ 65) = Finite (2 ^ 65)"
  using nearest_even_int [of "2 ^ 23"]
  by (subst round_float_eval [of 65]) (simp_all add: FLT_MAX_def)

lemma round_tiny: "round_float (1 / 2 ^ 80) = Finite (1 / 2 ^ 80)"
  using nearest_even_int [of "2 ^ 23"]
  by (subst round_float_eval [of "- 80"]) (simp_all add: FLT_MAX_def powr_minus)


section \<open>The claims\<close>

subsection \<open>C9: Normalize\<close>

text \<open>
  Counterexample to C9 as stated (any vector of nonzero length, unit length). In single
  precision the square of \<open>2 ^ 65\<close> overflows: the length of (\<open>2 ^ 65\<close>, 0) is computed as
  infinity, which passes the test of line 28; 1 divided by infinity is 0, and the result
  is (0, 0). The square of \<open>2 ^ (- 80)\<close> underflows: the length of (\<open>2 ^ (- 80)\<close>, 0) is
  computed as 0, and the result is (0, 0). Both inputs are binary32 numbers. For (3, 4)
  the result is (10066330 / \<open>2 ^ 24\<close>, 13421773 / \<open>2 ^ 24\<close>), whose length is close to 1 but
  not 1.
\<close>

theorem Normalize_float_range_counterexample:
  "round_float (2 ^ 65) = Finite (2 ^ 65) \<and>
   Length_float \<lparr>Vector2_float.x = Finite (2 ^ 65), Vector2_float.y = Finite 0\<rparr> = Infinity True \<and>
   Normalize_float \<lparr>Vector2_float.x = Finite (2 ^ 65), Vector2_float.y = Finite 0\<rparr> =
     \<lparr>Vector2_float.x = Finite 0, Vector2_float.y = Finite 0\<rparr> \<and>
   round_float (1 / 2 ^ 80) = Finite (1 / 2 ^ 80) \<and>
   Length_float \<lparr>Vector2_float.x = Finite (1 / 2 ^ 80), Vector2_float.y = Finite 0\<rparr> = Finite 0 \<and>
   Normalize_float \<lparr>Vector2_float.x = Finite (1 / 2 ^ 80), Vector2_float.y = Finite 0\<rparr> =
     \<lparr>Vector2_float.x = Finite 0, Vector2_float.y = Finite 0\<rparr> \<and>
   Normalize_float \<lparr>Vector2_float.x = Finite 3, Vector2_float.y = Finite 4\<rparr> =
     \<lparr>Vector2_float.x = Finite (10066330 / 2 ^ 24), Vector2_float.y = Finite (13421773 / 2 ^ 24)\<rparr> \<and>
   Length \<lparr>Vector2.x = 10066330 / 2 ^ 24, Vector2.y = 13421773 / 2 ^ 24\<rparr> \<noteq> 1"
proof -
  let ?v = "\<lparr>Vector2_float.x = Finite (2 ^ 65), Vector2_float.y = Finite 0\<rparr>"
  let ?w = "\<lparr>Vector2_float.x = Finite (1 / 2 ^ 80), Vector2_float.y = Finite 0\<rparr>"
  have t1: "float_times (Finite (2 ^ 65)) (Finite (2 ^ 65)) = Infinity True"
    by (simp only: float_times.simps overflow_square)
  have t2: "float_times (Finite 0) (Finite 0) = Finite 0"
    by (simp add: round_float_0)
  have t3: "float_times (Finite (1 / 2 ^ 80)) (Finite (1 / 2 ^ 80)) = Finite 0"
    by (simp only: float_times.simps underflow_square)
  have l: "Length_float ?v = Infinity True"
    by (simp only: Length_float_def Vector2_float.simps t1 t2 float_plus.simps sqrtf.simps if_True)
  have n: "Normalize_float ?v = \<lparr>Vector2_float.x = Finite 0, Vector2_float.y = Finite 0\<rparr>"
    unfolding Normalize_float_def Let_def l
    by (simp add: Scale_float_def round_float_0)
  have "float_plus (Finite 0) (Finite 0) = Finite 0" "sqrtf (Finite 0) = Finite 0"
    by (simp_all add: round_float_0)
  then have k: "Length_float ?w = Finite 0"
    by (simp only: Length_float_def Vector2_float.simps t2 t3)
  have o: "Normalize_float ?w = \<lparr>Vector2_float.x = Finite 0, Vector2_float.y = Finite 0\<rparr>"
    unfolding Normalize_float_def Let_def k by simp
  have e: "Length \<lparr>Vector2.x = 10066330 / 2 ^ 24, Vector2.y = 13421773 / 2 ^ 24\<rparr> \<noteq> 1"
    by (simp add: Length_def)
  from round_huge l n round_tiny k o Normalize_float_3_4 e show ?thesis by (simp only: simp_thms)
qed

text \<open>
  C9, amended. \<open>Normalize\<close> of the zero vector is the zero vector: the test of line 28 guards
  the division, which in single precision does not fault but gives infinity, and the
  scaling by it would give NaN components. For a vector whose components are zero or of
  magnitude between \<open>2 ^ (- 60)\<close> and \<open>2 ^ 60\<close>, not both zero, \<open>Normalize\<close> returns a vector of
  finite components whose length is 1 within \<open>2 ^ (- 21)\<close>, and each component is that of the
  exact unit vector in the direction of the input (the input scaled by the positive
  factor 1 / length, over the reals) up to a relative error of \<open>2 ^ (- 21)\<close>.
\<close>

theorem Normalize_float_unit:
  "Normalize_float \<lparr>Vector2_float.x = Finite 0, Vector2_float.y = Finite 0\<rparr> =
     \<lparr>Vector2_float.x = Finite 0, Vector2_float.y = Finite 0\<rparr> \<and>
   Scale_float \<lparr>Vector2_float.x = Finite 0, Vector2_float.y = Finite 0\<rparr>
       (float_divide (Finite 1) (Length_float \<lparr>Vector2_float.x = Finite 0, Vector2_float.y = Finite 0\<rparr>)) =
     \<lparr>Vector2_float.x = NaN, Vector2_float.y = NaN\<rparr> \<and>
   (moderate a \<and> moderate b \<and> (a \<noteq> 0 \<or> b \<noteq> 0) \<longrightarrow>
      (\<exists>a' b'. Normalize_float \<lparr>Vector2_float.x = Finite a, Vector2_float.y = Finite b\<rparr> =
                 \<lparr>Vector2_float.x = Finite a', Vector2_float.y = Finite b'\<rparr> \<and>
         \<bar>Length \<lparr>Vector2.x = a', Vector2.y = b'\<rparr> - 1\<bar> \<le> 1 / 2 ^ 21 \<and>
         \<bar>a' - Vector2.x (Normalize \<lparr>Vector2.x = a, Vector2.y = b\<rparr>)\<bar> \<le>
           1 / 2 ^ 21 * \<bar>Vector2.x (Normalize \<lparr>Vector2.x = a, Vector2.y = b\<rparr>)\<bar> \<and>
         \<bar>b' - Vector2.y (Normalize \<lparr>Vector2.x = a, Vector2.y = b\<rparr>)\<bar> \<le>
           1 / 2 ^ 21 * \<bar>Vector2.y (Normalize \<lparr>Vector2.x = a, Vector2.y = b\<rparr>)\<bar> \<and>
         Normalize \<lparr>Vector2.x = a, Vector2.y = b\<rparr> =
           Scale \<lparr>Vector2.x = a, Vector2.y = b\<rparr> (1 / Length \<lparr>Vector2.x = a, Vector2.y = b\<rparr>) \<and>
         0 < Length \<lparr>Vector2.x = a, Vector2.y = b\<rparr> \<and>
         Length (Normalize \<lparr>Vector2.x = a, Vector2.y = b\<rparr>) = 1))"
proof (intro conjI impI)
  show "Normalize_float \<lparr>Vector2_float.x = Finite 0, Vector2_float.y = Finite 0\<rparr> =
     \<lparr>Vector2_float.x = Finite 0, Vector2_float.y = Finite 0\<rparr>"
    by (simp add: Normalize_float_def Length_float_def round_float_0 Let_def)
  show "Scale_float \<lparr>Vector2_float.x = Finite 0, Vector2_float.y = Finite 0\<rparr>
       (float_divide (Finite 1) (Length_float \<lparr>Vector2_float.x = Finite 0, Vector2_float.y = Finite 0\<rparr>)) =
     \<lparr>Vector2_float.x = NaN, Vector2_float.y = NaN\<rparr>"
    by (simp add: Scale_float_def Length_float_def round_float_0)
next
  assume h: "moderate a \<and> moderate b \<and> (a \<noteq> 0 \<or> b \<noteq> 0)"
  let ?v = "\<lparr>Vector2.x = a, Vector2.y = b\<rparr>"
  from h moderate_sum_bounds(1) [of a b] have "1 / 2 ^ 120 \<le> a * a + b * b" by simp
  then have nz: "0 < a * a + b * b" by (rule less_le_trans [rotated]) simp
  then have lp: "0 < Length ?v" by (simp add: Length_def)
  then have n: "Normalize ?v = Scale ?v (1 / Length ?v)"
    by (simp add: Normalize_def)
  have c: "Vector2.x (Normalize ?v) = a / sqrt (a * a + b * b)"
    "Vector2.y (Normalize ?v) = b / sqrt (a * a + b * b)"
    by (simp_all add: n Scale_def) (simp_all add: Length_def)
  have u: "Length (Normalize ?v) = 1"
    using lp by (simp add: n Length_Scale)
  from h Normalize_float_close [of a b] obtain a' b' where
    r: "Normalize_float \<lparr>Vector2_float.x = Finite a, Vector2_float.y = Finite b\<rparr> =
                 \<lparr>Vector2_float.x = Finite a', Vector2_float.y = Finite b'\<rparr>"
      "\<bar>sqrt (a' * a' + b' * b') - 1\<bar> \<le> 1 / 2 ^ 21"
      "\<bar>a' - a / sqrt (a * a + b * b)\<bar> \<le> 1 / 2 ^ 21 * \<bar>a / sqrt (a * a + b * b)\<bar>"
      "\<bar>b' - b / sqrt (a * a + b * b)\<bar> \<le> 1 / 2 ^ 21 * \<bar>b / sqrt (a * a + b * b)\<bar>"
    by blast
  from r(2) have "\<bar>Length \<lparr>Vector2.x = a', Vector2.y = b'\<rparr> - 1\<bar> \<le> 1 / 2 ^ 21"
    by (simp add: Length_def)
  with r(1,3,4) n lp u show "\<exists>a' b'. Normalize_float \<lparr>Vector2_float.x = Finite a, Vector2_float.y = Finite b\<rparr> =
                 \<lparr>Vector2_float.x = Finite a', Vector2_float.y = Finite b'\<rparr> \<and>
         \<bar>Length \<lparr>Vector2.x = a', Vector2.y = b'\<rparr> - 1\<bar> \<le> 1 / 2 ^ 21 \<and>
         \<bar>a' - Vector2.x (Normalize ?v)\<bar> \<le> 1 / 2 ^ 21 * \<bar>Vector2.x (Normalize ?v)\<bar> \<and>
         \<bar>b' - Vector2.y (Normalize ?v)\<bar> \<le> 1 / 2 ^ 21 * \<bar>Vector2.y (Normalize ?v)\<bar> \<and>
         Normalize ?v = Scale ?v (1 / Length ?v) \<and>
         0 < Length ?v \<and>
         Length (Normalize ?v) = 1"
    unfolding c by blast
qed

theorem Normalize_float_unit_witness:
  "moderate 3 \<and> moderate 4 \<and>
   Normalize_float \<lparr>Vector2_float.x = Finite 3, Vector2_float.y = Finite 4\<rparr> =
     \<lparr>Vector2_float.x = Finite (10066330 / 2 ^ 24), Vector2_float.y = Finite (13421773 / 2 ^ 24)\<rparr> \<and>
   \<bar>Length \<lparr>Vector2.x = 10066330 / 2 ^ 24, Vector2.y = 13421773 / 2 ^ 24\<rparr> - 1\<bar> \<le> 1 / 2 ^ 21 \<and>
   Normalize \<lparr>Vector2.x = 3, Vector2.y = 4\<rparr> = \<lparr>Vector2.x = 3 / 5, Vector2.y = 4 / 5\<rparr> \<and>
   \<bar>10066330 / 2 ^ 24 - 3 / 5\<bar> \<le> 1 / 2 ^ 21 * \<bar>3 / 5 :: real\<bar> \<and>
   \<bar>13421773 / 2 ^ 24 - 4 / 5\<bar> \<le> 1 / 2 ^ 21 * \<bar>4 / 5 :: real\<bar>"
proof -
  have m: "moderate 3" "moderate 4" by (simp_all add: moderate_def)
  from Normalize_float_unit [of 3 4] m obtain a' b' where
    r: "Normalize_float \<lparr>Vector2_float.x = Finite 3, Vector2_float.y = Finite 4\<rparr> =
           \<lparr>Vector2_float.x = Finite a', Vector2_float.y = Finite b'\<rparr>"
      "\<bar>Length \<lparr>Vector2.x = a', Vector2.y = b'\<rparr> - 1\<bar> \<le> 1 / 2 ^ 21"
    by auto
  from r(1) have "a' = 10066330 / 2 ^ 24" "b' = 13421773 / 2 ^ 24"
    by (simp_all add: Normalize_float_3_4)
  with r(2) have l: "\<bar>Length \<lparr>Vector2.x = 10066330 / 2 ^ 24, Vector2.y = 13421773 / 2 ^ 24\<rparr> - 1\<bar> \<le> 1 / 2 ^ 21"
    by simp
  have n: "Normalize \<lparr>Vector2.x = 3, Vector2.y = 4\<rparr> = \<lparr>Vector2.x = 3 / 5, Vector2.y = 4 / 5\<rparr>"
    by (simp add: Normalize_def Length_3_4 Scale_def)
  have "\<bar>10066330 / 2 ^ 24 - 3 / 5\<bar> \<le> 1 / 2 ^ 21 * \<bar>3 / 5 :: real\<bar>"
    "\<bar>13421773 / 2 ^ 24 - 4 / 5\<bar> \<le> 1 / 2 ^ 21 * \<bar>4 / 5 :: real\<bar>"
    by simp_all
  with m l n show ?thesis using Normalize_float_3_4 by simp
qed

subsection \<open>C3: a terminal state only reacts to the reset key\<close>

text \<open>
  C3. When \<open>gameOver\<close> or \<open>robberEscaped\<close> is set, a frame leaves the whole state as it is
  (so no position, no score and no level changes) unless the R key was pressed in that
  frame, and then the frame is \<open>resetGame\<close>.
\<close>

theorem update_terminal:
  "gameOver g \<or> robberEscaped g \<Longrightarrow>
     update inp g = (if IsKeyPressed inp KEY_R then resetGame g else Some g)"
  by (auto simp: update_def)

theorem update_terminal_witness:
  "gameOver (start_game\<lparr>gameOver := True\<rparr>) \<and>
   update (hold KEY_S) (start_game\<lparr>gameOver := True\<rparr>) = Some (start_game\<lparr>gameOver := True\<rparr>) \<and>
   update (press KEY_R) (start_game\<lparr>gameOver := True\<rparr>) = resetGame (start_game\<lparr>gameOver := True\<rparr>)"
  using update_terminal [of "start_game\<lparr>gameOver := True\<rparr>" "hold KEY_S"]
    update_terminal [of "start_game\<lparr>gameOver := True\<rparr>" "press KEY_R"]
  by (simp add: hold_def press_def)

subsection \<open>C2: the chaser's sidestep looks at one wall only\<close>

text \<open>
  Counterexample to C2 as stated (for any chaser position). A chaser of radius 20 at
  (10, 300) sticks out of the window on the left. The wall blocks the step towards the
  runner and both sidesteps, so the loop keeps the position (10, 300); the boundary
  tests of lines 138-141 then move the chaser to (20, 300). Its position is not left
  unchanged.
\<close>

theorem Cop_move_blocked_counterexample:
  "overlaps edge_cop (candidate edge_cop edge_target) edge_wall \<and>
   overlaps edge_cop (deflection edge_cop edge_target (speed edge_cop)) edge_wall \<and>
   overlaps edge_cop (deflection edge_cop edge_target (- speed edge_cop)) edge_wall \<and>
   Character.position edge_cop = \<lparr>Vector2.x = 10, Vector2.y = 300\<rparr> \<and>
   Character.position (Cop_move edge_cop edge_target [edge_wall]) = \<lparr>Vector2.x = 20, Vector2.y = 300\<rparr>"
  by (simp add: overlaps_def candidate_def deflection_def edge_cop_def edge_target_def edge_wall_def
      entity_defs Subtract_def Normalize_horizontal Scale_def Add_def CheckCollisionCircleRec_sq
      Cop_move_def Cop_move_clamp_def Let_def)

text \<open>
  C2, amended. The walls are tested in list order against the candidate position. If
  none overlaps it, the candidate is taken. At the first wall that overlaps, the step
  tries the sidestep by \<open>speed\<close> along \<open>(-dy, dx)\<close>, then the opposite one, each against
  that wall only, and otherwise keeps the position; the walls after it play no part
  (\<open>after\<close> does not occur on the right-hand side). The position chosen this way then
  goes through the boundary tests of lines 138-141, which leave it as it is when the
  chaser's circle lies within the window; so a chaser within the window whose sidesteps
  are both blocked does not move.
\<close>

theorem Cop_move_first_wall:
  "((\<forall>w\<in>set ws. \<not> overlaps c (candidate c target) w) \<longrightarrow>
      Character.position (Cop_move c target ws) = Cop_move_clamp (radius c) (candidate c target)) \<and>
   ((\<forall>w\<in>set before. \<not> overlaps c (candidate c target) w) \<and> overlaps c (candidate c target) wall \<longrightarrow>
      Character.position (Cop_move c target (before @ wall # after)) =
        Cop_move_clamp (radius c)
          (if \<not> overlaps c (deflection c target (speed c)) wall then deflection c target (speed c)
           else if \<not> overlaps c (deflection c target (- speed c)) wall then deflection c target (- speed c)
           else Character.position c)) \<and>
   (inArena (radius c) (Character.position c) \<longrightarrow>
      Cop_move_clamp (radius c) (Character.position c) = Character.position c)"
  by (simp add: Cop_move_position Cop_move_walls_none Cop_move_walls_hit deflection_def Let_def
      Cop_move_clamp_inArena)

theorem Cop_move_first_wall_witness:
  "overlaps witness_cop (candidate witness_cop witness_target) (hd the_walls) \<and>
   \<not> overlaps witness_cop (deflection witness_cop witness_target (speed witness_cop)) (hd the_walls) \<and>
   inArena (radius witness_cop) (Character.position witness_cop) \<and>
   Character.position (Cop_move witness_cop witness_target the_walls) = \<lparr>Vector2.x = 128, Vector2.y = 163\<rparr>"
proof -
  have c: "candidate witness_cop witness_target = \<lparr>Vector2.x = 131, Vector2.y = 160\<rparr>"
    by (simp add: candidate_def witness_cop_def witness_target_def entity_defs Subtract_def
        Normalize_horizontal Scale_def Add_def)
  have d: "deflection witness_cop witness_target 3 = \<lparr>Vector2.x = 128, Vector2.y = 163\<rparr>"
    by (simp add: deflection_def witness_cop_def witness_target_def entity_defs Subtract_def
        Normalize_horizontal Scale_def Add_def)
  have r: "radius witness_cop = 20" "speed witness_cop = 3"
    by (simp_all add: witness_cop_def entity_defs)
  have o: "overlaps witness_cop (candidate witness_cop witness_target) (hd the_walls)"
    by (simp add: c r overlaps_def the_walls_def entity_defs CheckCollisionCircleRec_sq)
  have n: "\<not> overlaps witness_cop (deflection witness_cop witness_target 3) (hd the_walls)"
    by (simp add: d r overlaps_def the_walls_def entity_defs CheckCollisionCircleRec_sq)
  have a: "inArena (radius witness_cop) (Character.position witness_cop)"
    by (simp add: inArena_def witness_cop_def entity_defs)
  have w: "the_walls = [] @ hd the_walls # tl the_walls"
    by (simp add: the_walls_def)
  from Cop_move_first_wall [of "[]" witness_cop witness_target "[]" "hd the_walls" "tl the_walls"] o n w
  have "Character.position (Cop_move witness_cop witness_target the_walls) =
        Cop_move_clamp 20 \<lparr>Vector2.x = 128, Vector2.y = 163\<rparr>"
    by (simp add: r d)
  then show ?thesis using o n a
    by (simp add: r Cop_move_clamp_def entity_defs)
qed

subsection \<open>C5: one step in the open\<close>

text \<open>
  Counterexample to C5 as stated. With the radius every chaser of the game has
  (\<open>copRadius\<close> = 20), the chaser at (0, 0) with speed 1 and the runner at (10, 0) ends the
  step at (20, 20), not near (1, 0): the boundary tests of lines 138 and 140 push the
  circle back into the window.
\<close>

theorem Cop_move_open_field_counterexample:
  "Character.position (Cop_move (new_Cop \<lparr>Vector2.x = 0, Vector2.y = 0\<rparr> copRadius RED 1)
      (new_Robber \<lparr>Vector2.x = 10, Vector2.y = 0\<rparr> playerRadius BLUE 4.5) []) =
     \<lparr>Vector2.x = 20, Vector2.y = 20\<rparr>"
  by (simp add: Cop_move_def Subtract_def Normalize_horizontal Scale_def Add_def
      Cop_move_clamp_def Let_def entity_defs)

text \<open>
  C5, amended. For a chaser at (0, 0) with speed 1 and radius \<open>rad\<close> between 0 and 300, a
  runner at (10, 0) and no walls, the candidate position of the step is (1, 0) and the
  facing angle becomes 0 degrees; the chaser ends at \<open>(max 1 rad, rad)\<close>, which is (1, 0)
  exactly when the radius is 0.
\<close>

theorem Cop_move_open_field:
  "0 \<le> rad \<and> rad \<le> 300 \<and>
   Character.position c = \<lparr>Vector2.x = 0, Vector2.y = 0\<rparr> \<and> speed c = 1 \<and> radius c = rad \<and>
   Character.position target = \<lparr>Vector2.x = 10, Vector2.y = 0\<rparr> \<longrightarrow>
     candidate c target = \<lparr>Vector2.x = 1, Vector2.y = 0\<rparr> \<and>
     Character.position (Cop_move c target []) =
       \<lparr>Vector2.x = max 1 (real_of_int rad), Vector2.y = real_of_int rad\<rparr> \<and>
     rotation (Cop_move c target []) = 0"
  by (auto simp: candidate_def Cop_move_def Subtract_def Normalize_horizontal Scale_def Add_def
      Cop_move_clamp_def Let_def entity_defs atan2f_right max_def)

theorem Cop_move_open_field_witness:
  "Character.position (Cop_move (new_Cop \<lparr>Vector2.x = 0, Vector2.y = 0\<rparr> 0 RED 1)
      (new_Robber \<lparr>Vector2.x = 10, Vector2.y = 0\<rparr> playerRadius BLUE 4.5) []) =
     \<lparr>Vector2.x = 1, Vector2.y = 0\<rparr> \<and>
   rotation (Cop_move (new_Cop \<lparr>Vector2.x = 0, Vector2.y = 0\<rparr> 0 RED 1)
      (new_Robber \<lparr>Vector2.x = 10, Vector2.y = 0\<rparr> playerRadius BLUE 4.5) []) = 0"
  using Cop_move_open_field [of 0 "new_Cop \<lparr>Vector2.x = 0, Vector2.y = 0\<rparr> 0 RED 1"
      "new_Robber \<lparr>Vector2.x = 10, Vector2.y = 0\<rparr> playerRadius BLUE 4.5"]
  by (simp add: new_Cop_def new_Robber_def)

subsection \<open>C7: the runner's move is kept or undone as a whole\<close>

text \<open>
  C7. In a frame of a game that is being played, the runner first moves as the keys say
  (\<open>Robber_move\<close>); if the position it reaches overlaps any wall, the runner is put back
  exactly where it started, and if it overlaps no wall it keeps the position it reached
  (lines 243-251, the first conjunct). The frame ends, given that the generator can
  place coins, and nothing later in it moves the runner: at the end of the frame the
  runner is where lines 243-251 left it (the second conjunct).
\<close>

theorem update_robber_reverts:
  "Character.position (robber (update_robber inp g)) =
     (if \<exists>w\<in>set (walls g).
           CheckCollisionCircleRec (Character.position (Robber_move inp (robber g)))
             (real_of_int (radius (robber g))) (Wall.rect w)
      then Character.position (robber g)
      else Character.position (Robber_move inp (robber g))) \<and>
   (\<not> gameOver g \<and> \<not> robberEscaped g \<and> coins_possible (walls g) (rng g) \<longrightarrow>
      (\<exists>g'. update inp g = Some g' \<and>
         Character.position (robber g') =
           (if \<exists>w\<in>set (walls g).
                 CheckCollisionCircleRec (Character.position (Robber_move inp (robber g)))
                   (real_of_int (radius (robber g))) (Wall.rect w)
            then Character.position (robber g)
            else Character.position (Robber_move inp (robber g)))))"
proof (intro conjI impI)
  show "Character.position (robber (update_robber inp g)) =
     (if \<exists>w\<in>set (walls g).
           CheckCollisionCircleRec (Character.position (Robber_move inp (robber g)))
             (real_of_int (radius (robber g))) (Wall.rect w)
      then Character.position (robber g)
      else Character.position (Robber_move inp (robber g)))"
    by (simp add: update_robber_position update_hitsWall_iff Robber_move_fields)
next
  assume a: "\<not> gameOver g \<and> \<not> robberEscaped g \<and> coins_possible (walls g) (rng g)"
  with update_returns [of g inp] obtain g' where g': "update inp g = Some g'" by blast
  with a update_playing_result [of g inp g'] obtain g2 where
    g2: "update_level (collected_game inp g) = Some g2" "g' = update_door g2" by blast
  from update_level_fields(1) [OF g2(1)] g2(2)
  have "robber g' = moved_robber inp g"
    by (simp add: update_door_fields collected_game_fields)
  then have "Character.position (robber g') =
       (if \<exists>w\<in>set (walls g).
             CheckCollisionCircleRec (Character.position (Robber_move inp (robber g)))
               (real_of_int (radius (robber g))) (Wall.rect w)
        then Character.position (robber g)
        else Character.position (Robber_move inp (robber g)))"
    by (simp add: moved_robber_position update_hitsWall_iff Robber_move_fields)
  with g' show "\<exists>g'. update inp g = Some g' \<and>
         Character.position (robber g') =
           (if \<exists>w\<in>set (walls g).
                 CheckCollisionCircleRec (Character.position (Robber_move inp (robber g)))
                   (real_of_int (radius (robber g))) (Wall.rect w)
            then Character.position (robber g)
            else Character.position (Robber_move inp (robber g)))"
    by blast
qed

theorem update_robber_reverts_witness:
  "\<not> gameOver beside_wall_game \<and> \<not> robberEscaped beside_wall_game \<and>
   coins_possible (walls beside_wall_game) (rng beside_wall_game) \<and>
   Character.position (robber beside_wall_game) = \<lparr>Vector2.x = 426, Vector2.y = 300\<rparr> \<and>
   Character.position (Robber_move (hold KEY_D) (robber beside_wall_game)) = \<lparr>Vector2.x = 430.5, Vector2.y = 300\<rparr> \<and>
   update (hold KEY_D) beside_wall_game \<noteq> None \<and>
   Character.position (robber (the (update (hold KEY_D) beside_wall_game))) = \<lparr>Vector2.x = 426, Vector2.y = 300\<rparr> \<and>
   update (hold KEY_A) beside_wall_game \<noteq> None \<and>
   Character.position (robber (the (update (hold KEY_A) beside_wall_game))) = \<lparr>Vector2.x = 421.5, Vector2.y = 300\<rparr>"
proof -
  have w: "walls beside_wall_game = the_walls" "rng beside_wall_game = session_rand"
    "\<not> gameOver beside_wall_game" "\<not> robberEscaped beside_wall_game"
    "robber beside_wall_game = new_Robber \<lparr>Vector2.x = 426, Vector2.y = 300\<rparr> playerRadius BLUE 4.5"
    by (simp_all add: beside_wall_game_def start_game_def)
  have cp: "coins_possible (walls beside_wall_game) (rng beside_wall_game)"
    by (simp add: w coins_possible_session)
  have p0: "Character.position (robber beside_wall_game) = \<lparr>Vector2.x = 426, Vector2.y = 300\<rparr>"
    by (simp add: w(5) new_Robber_def)
  have mD: "Character.position (Robber_move (hold KEY_D) (robber beside_wall_game)) = \<lparr>Vector2.x = 430.5, Vector2.y = 300\<rparr>"
    by (simp add: w Robber_move_def hold_def entity_defs Let_def)
  have mA: "Character.position (Robber_move (hold KEY_A) (robber beside_wall_game)) = \<lparr>Vector2.x = 421.5, Vector2.y = 300\<rparr>"
    by (simp add: w Robber_move_def hold_def entity_defs Let_def)
  have r: "radius (Robber_move inp (robber beside_wall_game)) = 20" for inp
    by (simp add: Robber_move_fields w(5) new_Robber_def playerRadius_def)
  have hD: "update_hitsWall (Robber_move (hold KEY_D) (robber beside_wall_game)) the_walls"
    unfolding the_walls_hit mD r by (simp add: CheckCollisionCircleRec_sq)
  have hA: "\<not> update_hitsWall (Robber_move (hold KEY_A) (robber beside_wall_game)) the_walls"
    unfolding the_walls_hit mA r by (simp add: CheckCollisionCircleRec_sq)
  have eD: "\<exists>w\<in>set (walls beside_wall_game).
      CheckCollisionCircleRec (Character.position (Robber_move (hold KEY_D) (robber beside_wall_game)))
        (real_of_int (radius (robber beside_wall_game))) (Wall.rect w)"
    using hD by (simp add: update_hitsWall_iff Robber_move_fields w(1))
  have eA: "\<not> (\<exists>w\<in>set (walls beside_wall_game).
      CheckCollisionCircleRec (Character.position (Robber_move (hold KEY_A) (robber beside_wall_game)))
        (real_of_int (radius (robber beside_wall_game))) (Wall.rect w))"
    using hA by (simp add: update_hitsWall_iff Robber_move_fields w(1))
  from update_robber_reverts [of "hold KEY_D" beside_wall_game] w(3,4) cp eD
  obtain gD where gD: "update (hold KEY_D) beside_wall_game = Some gD"
    "Character.position (robber gD) = Character.position (robber beside_wall_game)"
    by auto
  from update_robber_reverts [of "hold KEY_A" beside_wall_game] w(3,4) cp eA
  obtain gA where gA: "update (hold KEY_A) beside_wall_game = Some gA"
    "Character.position (robber gA) = Character.position (Robber_move (hold KEY_A) (robber beside_wall_game))"
    by auto
  from gD gA w(3,4) cp p0 mD mA show ?thesis by simp
qed


subsection \<open>C1: reset\<close>



subsection \<open>C4: the fifth coin\<close>




subsection \<open>C8: the score stays within the quota\<close>

text \<open>
  C8. In every reachable state (states are observed between frames) the score lies in
  \<open>[0, maxCoins]\<close>, with \<open>maxCoins\<close> = 5. In a frame, the coin loop adds one to the score for
  each coin that was uncollected and touches the runner, and marks exactly these coins
  collected; and when the score after the coin loop is at least the quota, the frame ends
  with score 0.
\<close>

theorem score_within_quota:
  "(reachable g \<longrightarrow> 0 \<le> score g \<and> score g \<le> maxCoins \<and> maxCoins = 5) \<and>
   score (collected_game inp g) = score g + int (length (filter (touching (moved_robber inp g)) (coins g))) \<and>
   coins (collected_game inp g) =
     map (\<lambda>c. if touching (moved_robber inp g) c then c\<lparr>collected := True\<rparr> else c) (coins g) \<and>
   (\<not> gameOver g \<and> \<not> robberEscaped g \<and> maxCoins \<le> score (collected_game inp g) \<and>
    update inp g = Some g' \<longrightarrow> score g' = 0)"
proof (intro conjI impI)
  assume "reachable g"
  from reachable_score [OF this] show "0 \<le> score g" "score g \<le> maxCoins" by simp_all
next
  show "maxCoins = 5" by (simp add: maxCoins_def)
next
  show "score (collected_game inp g) = score g + int (length (filter (touching (moved_robber inp g)) (coins g)))"
    by (rule collected_game_score)
next
  show "coins (collected_game inp g) =
     map (\<lambda>c. if touching (moved_robber inp g) c then c\<lparr>collected := True\<rparr> else c) (coins g)"
    by (simp add: collected_game_def moved_robber_def update_coins_def update_coins_loop_coins
        step_fields)
next
  assume a: "\<not> gameOver g \<and> \<not> robberEscaped g \<and> maxCoins \<le> score (collected_game inp g) \<and>
    update inp g = Some g'"
  with update_playing_result [of g inp g'] obtain g2 where
    g2: "update_level (collected_game inp g) = Some g2" "g' = update_door g2" by blast
  from a g2(1) advanceLevel_fields(4) [of "collected_game inp g" g2] have "score g2 = 0"
    by (simp add: update_level_def)
  with g2(2) show "score g' = 0" by (simp add: update_door_fields)
qed

theorem score_within_quota_witness:
  "reachable start_game \<and> 0 \<le> score start_game \<and> score start_game \<le> 5 \<and>
   \<not> gameOver fifth_coin_game \<and> \<not> robberEscaped fifth_coin_game \<and>
   score (collected_game idle fifth_coin_game) = 5 \<and>
   score (the (update idle fifth_coin_game)) = 0"
proof -
  from score_within_quota [of start_game] reachable_start_game
  have 1: "0 \<le> score start_game \<and> score start_game \<le> 5" by simp
  have f: "\<not> gameOver fifth_coin_game" "\<not> robberEscaped fifth_coin_game"
    "coins_possible (walls fifth_coin_game) (rng fifth_coin_game)"
    by (simp_all add: fifth_coin_game_def start_game_def coins_possible_session)
  from update_returns [OF f(3), of idle] obtain g' where g': "update idle fifth_coin_game = Some g'"
    by blast
  from score_within_quota [of fifth_coin_game idle g'] f(1,2) g' fifth_coin_score
  have "score g' = 0" by (simp add: maxCoins_def)
  with 1 g' f fifth_coin_score reachable_start_game show ?thesis by simp
qed

subsection \<open>C6: the slowing zone\<close>





subsection \<open>C10: caught and escaped in the same frame\<close>

lemma caught_frame:
  "gameOver (collected_game idle about_to_be_caught)"
proof -
  let ?g = about_to_be_caught
  have f: "robber ?g = runner_at \<lparr>Vector2.x = 200, Vector2.y = 200\<rparr>" "walls ?g = the_walls"
    "slowingZone ?g = None" "cop ?g = new_Cop \<lparr>Vector2.x = 170, Vector2.y = 200\<rparr> copRadius RED 3"
    "cop2 ?g = None"
    by (simp_all add: about_to_be_caught_def caught_game_def start_game_def runner_at_def)
  have m: "moved_robber idle ?g = runner_at \<lparr>Vector2.x = 200, Vector2.y = 200\<rparr>"
    using f(1,2)
  proof (rule moved_runner)
    show "Character.position (Robber_move idle (runner_at \<lparr>Vector2.x = 200, Vector2.y = 200\<rparr>)) =
        \<lparr>Vector2.x = 200, Vector2.y = 200\<rparr>"
      by (simp add: idle_robber runner_at_fields)
    show "\<not> update_hitsWall (runner_at \<lparr>Vector2.x = 200, Vector2.y = 200\<rparr>) the_walls"
      by (rule clear_of_walls) simp_all
    show "case slowingZone ?g of None \<Rightarrow> True
        | Some z \<Rightarrow> \<not> isInside z \<lparr>Vector2.x = 200, Vector2.y = 200\<rparr>"
      by (simp add: f(3))
  qed
  have c: "Character.position (Cop_move (new_Cop \<lparr>Vector2.x = 170, Vector2.y = 200\<rparr> copRadius RED 3)
      (runner_at \<lparr>Vector2.x = 200, Vector2.y = 200\<rparr>) the_walls) = \<lparr>Vector2.x = 173, Vector2.y = 200\<rparr>"
    by (simp add: Cop_move_def Let_def runner_at_fields new_Cop_def copRadius_def Subtract_def
        Normalize_horizontal Scale_def Add_def the_walls_def new_Wall_def CheckCollisionCircleRec_sq
        Cop_move_clamp_def GetScreenWidth_def GetScreenHeight_def screenWidth_def screenHeight_def)
  have r: "radius (cop (collected_game idle ?g)) = 20"
    by (simp add: collected_game_more f(4) Cop_move_def Let_def new_Cop_def copRadius_def)
  show ?thesis
    by (simp add: collected_game_gameOver m runner_at_fields r)
       (simp add: collected_game_more(2) m f c CheckCollisionCircles_sq)
qed

text \<open>
  C10. \<open>gameOver\<close> and \<open>robberEscaped\<close> do not exclude each other. A frame of a game being
  played in which the catch test of lines 262-265 sets \<open>gameOver\<close> does not stop there: its
  result is that of the coin loop, the level test and the door test run on the state with
  \<open>gameOver\<close> set. And there is a reachable state, being played, from which one frame, in
  which the catch test sets \<open>gameOver\<close>, ends with both \<open>gameOver\<close> and \<open>robberEscaped\<close>
  true.
\<close>

theorem caught_and_escaped:
  "(\<not> gameOver g \<and> \<not> robberEscaped g \<and>
    gameOver (update_caught (update_cops (update_speed (update_robber inp g)))) \<longrightarrow>
      update inp g =
        map_option update_door (update_level (update_coins
          ((update_cops (update_speed (update_robber inp g)))\<lparr>gameOver := True\<rparr>)))) \<and>
   (\<exists>g0 inp0 g1. reachable g0 \<and> \<not> gameOver g0 \<and> \<not> robberEscaped g0 \<and>
      gameOver (update_caught (update_cops (update_speed (update_robber inp0 g0)))) \<and>
      update inp0 g0 = Some g1 \<and> gameOver g1 \<and> robberEscaped g1)"
proof (intro conjI impI)
  assume a: "\<not> gameOver g \<and> \<not> robberEscaped g \<and>
    gameOver (update_caught (update_cops (update_speed (update_robber inp g))))"
  let ?s = "update_cops (update_speed (update_robber inp g))"
  from a have "update_caught ?s = ?s\<lparr>gameOver := True\<rparr>"
    by (auto simp: update_caught_def split: if_splits)
  with a show "update inp g =
        map_option update_door (update_level (update_coins (?s\<lparr>gameOver := True\<rparr>)))"
    by (simp add: update_playing collected_game_def)
next
  from caught_in_the_door show "\<exists>g0 inp0 g1. reachable g0 \<and> \<not> gameOver g0 \<and> \<not> robberEscaped g0 \<and>
      gameOver (update_caught (update_cops (update_speed (update_robber inp0 g0)))) \<and>
      update inp0 g0 = Some g1 \<and> gameOver g1 \<and> robberEscaped g1"
    by blast
qed

theorem caught_and_escaped_witness:
  "\<not> gameOver about_to_be_caught \<and> \<not> robberEscaped about_to_be_caught \<and>
   gameOver (update_caught (update_cops (update_speed (update_robber idle about_to_be_caught)))) \<and>
   update idle about_to_be_caught =
     map_option update_door (update_level (update_coins
       ((update_cops (update_speed (update_robber idle about_to_be_caught)))\<lparr>gameOver := True\<rparr>)))"
proof -
  have f: "\<not> gameOver about_to_be_caught" "\<not> robberEscaped about_to_be_caught"
    by (simp_all add: about_to_be_caught_def caught_game_def start_game_def)
  have c: "gameOver (update_caught (update_cops (update_speed (update_robber idle about_to_be_caught))))"
    using caught_frame by (simp add: collected_game_def update_coins_fields)
  from caught_and_escaped [of about_to_be_caught idle] f c show ?thesis by simp
qed

end
